theory Spec2Isabelle
  imports Main
begin

section \<open>goloadenv: loading a configuration struct from the environment\<close>

text \<open>
  A shallow embedding of \<^verbatim>\<open>LoadEnv\<close> and its helpers (\<^verbatim>\<open>getTags\<close>,
  \<^verbatim>\<open>tagSliceToKeyMap\<close>, \<^verbatim>\<open>getField\<close>, \<^verbatim>\<open>setField\<close>,
  \<^verbatim>\<open>setIterableField\<close>, \<^verbatim>\<open>parseArrayString\<close>) and of
  \<^verbatim>\<open>RegisterEnvType\<close>. Go strings are byte strings, so \<open>string\<close> models them
  directly. A function that returns an \<^verbatim>\<open>error\<close> returns a value of the datatype
  \<open>error\<close>; a run-time panic is a separate outcome. The package-level variables
  \<^verbatim>\<open>tagNames\<close> and \<^verbatim>\<open>envTypes\<close> are passed explicitly: the first is threaded
  through every call and returned, the second is part of the read-only run-time
  environment of a load.
\<close>

subsection \<open>Strings and formatting\<close>

abbreviation apos :: string where
  "apos \<equiv> [CHR 0x27]"

text \<open>The verb \<^verbatim>\<open>%d\<close> of \<^verbatim>\<open>fmt\<close> on a non-negative \<^verbatim>\<open>int\<close>: decimal digits.\<close>

definition digit :: "nat \<Rightarrow> char" where
  "digit d = ''0123456789'' ! d"

function showNat :: "nat \<Rightarrow> string" where
  "showNat n = (if n < 10 then [digit n] else showNat (n div 10) @ [digit (n mod 10)])"
  by pat_completeness auto
termination
  by (relation "measure id") auto

declare showNat.simps [simp del]

text \<open>
  \<^verbatim>\<open>strings.Split(s, sep)\<close> for a one-byte separator: the pieces between the
  separators, empty pieces included, and one (empty) piece for the empty string.
\<close>

fun Split :: "string \<Rightarrow> char \<Rightarrow> string list" where
  "Split [] sep = [[]]"
| "Split (c # cs) sep =
     (if c = sep then [] # Split cs sep
      else (case Split cs sep of
              [] \<Rightarrow> [[c]]
            | piece # pieces \<Rightarrow> (c # piece) # pieces))"

text \<open>
  \<^verbatim>\<open>strings.FieldsFunc(s, f)\<close>: the maximal runs of bytes that do not satisfy
  \<open>f\<close>; empty runs are dropped. (The separators of \<^verbatim>\<open>SplitTags\<close> are ASCII, so
  splitting bytes and splitting runes agree.) The accumulator \<open>cur\<close> is the run
  being read, reversed.
\<close>

fun fieldsAcc :: "(char \<Rightarrow> bool) \<Rightarrow> string \<Rightarrow> string \<Rightarrow> string list" where
  "fieldsAcc f cur [] = (if cur = [] then [] else [rev cur])"
| "fieldsAcc f cur (c # cs) =
     (if f c then (if cur = [] then fieldsAcc f [] cs else rev cur # fieldsAcc f [] cs)
      else fieldsAcc f (c # cur) cs)"

definition FieldsFunc :: "string \<Rightarrow> (char \<Rightarrow> bool) \<Rightarrow> string list" where
  "FieldsFunc s f = fieldsAcc f [] s"

definition SplitTags :: "char \<Rightarrow> bool" where
  "SplitTags r = (r = CHR '';'' \<or> r = CHR '':'')"

subsection \<open>Errors and panics\<close>

text \<open>
  The error values the package builds: \<^verbatim>\<open>errors.New\<close> and \<^verbatim>\<open>fmt.Errorf\<close>
  without \<^verbatim>\<open>%w\<close> give an \<open>errorString\<close>; \<^verbatim>\<open>fmt.Errorf\<close> with \<^verbatim>\<open>%w\<close> gives a
  \<open>wrapError\<close> that holds the formatted message and the wrapped error; the two
  struct types keep their fields in the order of their declaration.
\<close>

datatype error =
    errorString string
  | wrapError string error
  | EnvNotFoundError string
  | EnvParseError string error string

fun Error :: "error \<Rightarrow> string" where
  "Error (errorString s) = s"
| "Error (wrapError msg err) = msg"
| "Error (EnvNotFoundError env) = ''environment variable not found: '' @ env"
| "Error (EnvParseError env err val) =
     ''error parsing '' @ apos @ val @ apos @ '' as environment variable '' @ env @ '': '' @ Error err"

text \<open>A call either returns an error value or panics (with the panic's message).\<close>

datatype failure = Returned error | Panicked string

text \<open>The \<^verbatim>\<open>fmt.Errorf\<close> calls of \<^verbatim>\<open>LoadEnv\<close> and \<^verbatim>\<open>tagSliceToKeyMap\<close>.\<close>

definition duplicateTag :: "string \<Rightarrow> error" where
  "duplicateTag item = errorString (''duplicate tag: '' @ item)"

definition tagsError :: "string \<Rightarrow> error \<Rightarrow> error" where
  "tagsError fieldName err =
     wrapError (''error getting tags for field: '' @ apos @ fieldName @ apos @ '': '' @ Error err) err"

definition nestedError :: "string \<Rightarrow> error \<Rightarrow> error" where
  "nestedError fieldName err =
     wrapError (''error loading nested struct '' @ apos @ fieldName @ apos @ '': '' @ Error err) err"

definition overflowError :: "nat \<Rightarrow> nat \<Rightarrow> error" where
  "overflowError maxLength n =
     errorString (''array size overflow, expected '' @ showNat maxLength @ '', got '' @ showNat n)"

definition indexPanic :: "nat \<Rightarrow> nat \<Rightarrow> failure" where
  "indexPanic i n =
     Panicked (''runtime error: index out of range ['' @ showNat i @ ''] with length '' @ showNat n)"

subsection \<open>Tag parsing\<close>

text \<open>
  \<^verbatim>\<open>map[string]string\<close> is a partial map; reading a missing key gives the empty
  string. \<^verbatim>\<open>tagNames\<close> (\<^verbatim>\<open>map[string]struct{}\<close>) is a set of strings.
\<close>

type_synonym tags = "string \<rightharpoonup> string"

definition lookup :: "tags \<Rightarrow> string \<Rightarrow> string" where
  "lookup m k = (case m k of None \<Rightarrow> [] | Some v \<Rightarrow> v)"

text \<open>
  The loop of \<^verbatim>\<open>tagSliceToKeyMap\<close>, by index as in the source. The map \<open>m\<close> and
  the registry \<open>tagNames\<close> are the state; the registry is returned in every case,
  since the caller sees its updates also when the call fails. The read of
  \<^verbatim>\<open>slice[index+1]\<close> panics when the index is out of range.
\<close>

function tagLoop :: "string list \<Rightarrow> nat \<Rightarrow> tags \<Rightarrow> string set \<Rightarrow> (failure + tags) \<times> string set" where
  "tagLoop slice index m tagNames =
     (if index < length slice then
        (let item = slice ! index in
         if index = 0 then
           (if item \<in> tagNames then (Inl (Returned (duplicateTag item)), tagNames)
            else tagLoop slice (index + 1) (m(''name'' \<mapsto> item)) (insert item tagNames))
         else if item = ''default'' then
           (if m item \<noteq> None then (Inl (Returned (duplicateTag item)), tagNames)
            else if index + 1 < length slice
              then tagLoop slice (index + 1 + 1) (m(item \<mapsto> slice ! (index + 1))) tagNames
              else (Inl (indexPanic (index + 1) (length slice)), tagNames))
         else tagLoop slice (index + 1) (m(item \<mapsto> [])) tagNames)
      else (Inr m, tagNames))"
  by pat_completeness auto
termination
  by (relation "measure (\<lambda>(slice, index, m, tagNames). length slice - index)") auto

declare tagLoop.simps [simp del]

definition tagSliceToKeyMap :: "string set \<Rightarrow> string list \<Rightarrow> (failure + tags) \<times> string set" where
  "tagSliceToKeyMap tagNames slice = tagLoop slice 0 Map.empty tagNames"

text \<open>
  \<^verbatim>\<open>getTags\<close> takes the value of the \<^verbatim>\<open>env\<close> key of the field's struct tag
  (\<^verbatim>\<open>field.Tag.Get(tagName)\<close>, empty when the key is absent).
\<close>

definition getTags :: "string set \<Rightarrow> string \<Rightarrow> (failure + tags) \<times> string set" where
  "getTags tagNames unparsedTags = tagSliceToKeyMap tagNames (FieldsFunc unparsedTags SplitTags)"

subsection \<open>Values as reflection shows them\<close>

text \<open>
  A type is identified by its name (as \<^verbatim>\<open>Type.String()\<close> prints it), or is an
  unnamed slice or array type. A value carries what reflection can observe of it:
  its type, its kind and its parts. A value of any kind other than struct, slice
  or array is a \<open>Scalar\<close> with a payload of the parameter type \<open>'s\<close>; \<^verbatim>\<open>LoadEnv\<close>
  treats all of these alike. \<open>SliceV t xs\<close> and \<open>ArrayV t xs\<close> are values of the
  unnamed types \<^verbatim>\<open>[]t\<close> and \<^verbatim>\<open>[n]t\<close>; \<open>NamedSliceV nm t xs\<close> and
  \<open>NamedArrayV nm t xs\<close> are values of a defined type \<open>nm\<close> whose underlying type is
  \<^verbatim>\<open>[]t\<close> or \<^verbatim>\<open>[n]t\<close>. An array's capacity is the length of its element list. A
  struct field has its declared name, the value of the \<^verbatim>\<open>env\<close> key of its tag,
  whether it is exported (reflection refuses to set or to hand out an unexported
  field), and its value. Struct types are named; fields of interface type are not
  modelled.
\<close>

datatype gotype = TNamed string | TSlice gotype | TArray nat gotype

datatype 's goval =
    Scalar gotype 's
  | SliceV gotype "'s goval list"
  | ArrayV gotype "'s goval list"
  | StructV string "'s gofield list"
  | NamedSliceV string gotype "'s goval list"
  | NamedArrayV string gotype "'s goval list"
and 's gofield =
    Field (Name: string) (Tag: string) (exported: bool) (val: "'s goval")

datatype kind = Invalid | Struct | Slice | Array | Ptr | Other

fun Kind :: "'s goval \<Rightarrow> kind" where
  "Kind (Scalar t x) = Other"
| "Kind (SliceV t xs) = Slice"
| "Kind (ArrayV t xs) = Array"
| "Kind (StructV nm fs) = Struct"
| "Kind (NamedSliceV nm t xs) = Slice"
| "Kind (NamedArrayV nm t xs) = Array"

fun typeOf :: "'s goval \<Rightarrow> gotype" where
  "typeOf (Scalar t x) = t"
| "typeOf (SliceV t xs) = TSlice t"
| "typeOf (ArrayV t xs) = TArray (length xs) t"
| "typeOf (StructV nm fs) = TNamed nm"
| "typeOf (NamedSliceV nm t xs) = TNamed nm"
| "typeOf (NamedArrayV nm t xs) = TNamed nm"

text \<open>
  \<^verbatim>\<open>Type.String()\<close>, and assignability (\<^verbatim>\<open>Type.AssignableTo\<close>, which
  \<^verbatim>\<open>field.Set\<close> checks): a value can be assigned to a field of the same type, or
  of a type with the same underlying type when one of the two types is unnamed.
\<close>

fun typeString :: "gotype \<Rightarrow> string" where
  "typeString (TNamed nm) = nm"
| "typeString (TSlice t) = ''[]'' @ typeString t"
| "typeString (TArray n t) = ''['' @ showNat n @ '']'' @ typeString t"

fun underlying :: "'s goval \<Rightarrow> gotype" where
  "underlying (NamedSliceV nm t xs) = TSlice t"
| "underlying (NamedArrayV nm t xs) = TArray (length xs) t"
| "underlying v = typeOf v"

fun named :: "gotype \<Rightarrow> bool" where
  "named (TNamed nm) = True"
| "named t = False"

definition assignable :: "'s goval \<Rightarrow> 's goval \<Rightarrow> bool" where
  "assignable v field =
     (typeOf v = typeOf field \<or>
      (underlying v = underlying field \<and> \<not> (named (typeOf v) \<and> named (typeOf field))))"

text \<open>
  The argument of \<^verbatim>\<open>LoadEnv\<close> is an \<^verbatim>\<open>interface{}\<close>: nil, a value that is not
  a pointer, a pointer to a value, or a nil pointer. The result of a call gives
  the argument back with the pointee as the call left it.
\<close>

datatype 's iface = NilInterface | Value "'s goval" | Pointer "'s goval" | NilPointer

fun ifaceKind :: "'s iface \<Rightarrow> kind" where
  "ifaceKind NilInterface = Invalid"
| "ifaceKind (Value v) = Kind v"
| "ifaceKind (Pointer v) = Ptr"
| "ifaceKind NilPointer = Ptr"

text \<open>\<^verbatim>\<open>reflect.ValueOf(config).Elem().Kind()\<close>, which is only evaluated for a pointer.\<close>

fun elemKind :: "'s iface \<Rightarrow> kind" where
  "elemKind (Pointer v) = Kind v"
| "elemKind c = Invalid"

subsection \<open>The run-time environment of a load\<close>

text \<open>
  What a load reads and never writes: the process environment (\<^verbatim>\<open>os.Getenv\<close>,
  which gives the empty string for an unset variable), the registry \<^verbatim>\<open>envTypes\<close>
  of converters (a converter returns the error or the value; the value is a
  non-nil interface value), \<^verbatim>\<open>fmt.Sscan\<close> into a target of a given type (the
  error or the value it stores), and the zero value of a type
  (\<^verbatim>\<open>reflect.MakeSlice\<close> fills the new slice with it).
\<close>

record 's runtime =
  Getenv :: "string \<Rightarrow> string"
  envTypes :: "gotype \<rightharpoonup> (string \<Rightarrow> error + 's goval)"
  Sscan :: "gotype \<Rightarrow> string \<Rightarrow> error + 's goval"
  Zero :: "gotype \<Rightarrow> 's goval"

text \<open>\<^verbatim>\<open>RegisterEnvType[T]()\<close> stores the converter of \<open>T\<close> under the type \<open>T\<close>.\<close>

definition RegisterEnvType :: "gotype \<Rightarrow> (string \<Rightarrow> error + 's goval) \<Rightarrow> 's runtime \<Rightarrow> 's runtime" where
  "RegisterEnvType T unmarshalEnv rt = rt\<lparr>envTypes := (envTypes rt)(T \<mapsto> unmarshalEnv)\<rparr>"

subsection \<open>Resolving and converting one field\<close>

definition getField :: "'s runtime \<Rightarrow> tags \<Rightarrow> error + string" where
  "getField rt tags =
     (let str = Getenv rt (lookup tags ''name'') in
      if str \<noteq> [] then Inr str
      else (case tags ''default'' of
              Some defaultValue \<Rightarrow> Inr defaultValue
            | None \<Rightarrow>
                (case tags ''optional'' of
                   None \<Rightarrow> Inl (EnvNotFoundError (lookup tags ''name''))
                 | Some x \<Rightarrow> Inr [])))"

text \<open>
  \<^verbatim>\<open>setField\<close> gives the failure, or the value the field holds afterwards (on a
  failure the field is unchanged). \<open>canSet\<close> is \<^verbatim>\<open>field.CanSet()\<close>.
  \<^verbatim>\<open>field.Set\<close> panics when the converter's value is not assignable to the
  field's type.
\<close>

definition notAssignable :: "gotype \<Rightarrow> gotype \<Rightarrow> failure" where
  "notAssignable vt ft =
     Panicked (''reflect.Set: value of type '' @ typeString vt @ '' is not assignable to type '' @ typeString ft)"

definition setField :: "'s runtime \<Rightarrow> bool \<Rightarrow> 's goval \<Rightarrow> string \<Rightarrow> tags \<Rightarrow> failure + 's goval" where
  "setField rt canSet field str tags =
     (if \<not> canSet
        then Inl (Returned (EnvParseError (lookup tags ''name'') (errorString ''field cannot be set'') str))
      else (case envTypes rt (typeOf field) of
              Some unmarshaller \<Rightarrow>
                (case unmarshaller str of
                   Inl err \<Rightarrow> Inl (Returned (EnvParseError (lookup tags ''name'') err str))
                 | Inr v \<Rightarrow>
                     if assignable v field then Inr v
                     else Inl (notAssignable (typeOf v) (typeOf field)))
            | None \<Rightarrow>
                (case Sscan rt (typeOf field) str of
                   Inl err \<Rightarrow> Inl (Returned (EnvParseError (lookup tags ''name'') err str))
                 | Inr v \<Rightarrow> Inr v)))"

subsection \<open>Slices and arrays\<close>

definition parseArrayString :: "string \<Rightarrow> error + string list" where
  "parseArrayString str =
     (if length str < 2 \<or> (take 1 str \<noteq> ''['' \<and> drop (length str - 1) str \<noteq> '']'')
        then Inl (errorString ''invalid array format'')
      else Inr (Split (drop 1 (take (length str - 1) str)) CHR '',''))"

fun elems :: "'s goval \<Rightarrow> 's goval list" where
  "elems (SliceV t xs) = xs"
| "elems (ArrayV t xs) = xs"
| "elems (NamedSliceV nm t xs) = xs"
| "elems (NamedArrayV nm t xs) = xs"
| "elems v = []"

fun elemType :: "'s goval \<Rightarrow> gotype" where
  "elemType (SliceV t xs) = t"
| "elemType (ArrayV t xs) = t"
| "elemType (NamedSliceV nm t xs) = t"
| "elemType (NamedArrayV nm t xs) = t"
| "elemType v = typeOf v"

text \<open>A slice or array with its elements replaced: a value of the same type.\<close>

fun setElems :: "'s goval \<Rightarrow> 's goval list \<Rightarrow> 's goval" where
  "setElems (SliceV t xs) ys = SliceV t ys"
| "setElems (ArrayV t xs) ys = ArrayV t ys"
| "setElems (NamedSliceV nm t xs) ys = NamedSliceV nm t ys"
| "setElems (NamedArrayV nm t xs) ys = NamedArrayV nm t ys"
| "setElems v ys = v"

text \<open>
  \<^verbatim>\<open>reflect.MakeSlice(field.Type(), n, n)\<close>: a slice of the type of the field,
  with \<open>n\<close> elements that are the zero value of its element type.
\<close>

definition MakeSlice :: "'s runtime \<Rightarrow> 's goval \<Rightarrow> nat \<Rightarrow> 's goval" where
  "MakeSlice rt field n = setElems field (replicate n (Zero rt (elemType field)))"

text \<open>\<^verbatim>\<open>field.Index(i)\<close> panics when \<open>i\<close> is out of range.\<close>

definition Index :: "'s goval \<Rightarrow> nat \<Rightarrow> failure + 's goval" where
  "Index field i =
     (if i < length (elems field) then Inr (elems field ! i)
      else Inl (Panicked (if Kind field = Array then ''reflect: array index out of range''
                          else ''reflect: slice index out of range'')))"

fun setIndex :: "'s goval \<Rightarrow> nat \<Rightarrow> 's goval \<Rightarrow> 's goval" where
  "setIndex (SliceV t xs) i v = SliceV t (xs[i := v])"
| "setIndex (ArrayV t xs) i v = ArrayV t (xs[i := v])"
| "setIndex (NamedSliceV nm t xs) i v = NamedSliceV nm t (xs[i := v])"
| "setIndex (NamedArrayV nm t xs) i v = NamedArrayV nm t (xs[i := v])"
| "setIndex field i v = field"

text \<open>
  The element loop of \<^verbatim>\<open>setIterableField\<close>. The elements of a settable slice or
  array field are settable. The container is returned as the loop left it, also
  when an element fails.
\<close>

function setElements :: "'s runtime \<Rightarrow> tags \<Rightarrow> 's goval \<Rightarrow> string list \<Rightarrow> nat \<Rightarrow> failure option \<times> 's goval" where
  "setElements rt tags field strValues i =
     (if i < length strValues then
        (case Index field i of
           Inl p \<Rightarrow> (Some p, field)
         | Inr elem \<Rightarrow>
             (case setField rt True elem (strValues ! i) tags of
                Inl err \<Rightarrow> (Some err, field)
              | Inr v \<Rightarrow> setElements rt tags (setIndex field i v) strValues (i + 1)))
      else (None, field))"
  by pat_completeness auto
termination
  by (relation "measure (\<lambda>(rt, tags, field, strValues, i). length strValues - i)") auto

declare setElements.simps [simp del]

definition setIterableField :: "'s runtime \<Rightarrow> bool \<Rightarrow> 's goval \<Rightarrow> string \<Rightarrow> tags \<Rightarrow> failure option \<times> 's goval" where
  "setIterableField rt canSet field str tags =
     (if \<not> canSet
        then (Some (Returned (EnvParseError (lookup tags ''name'') (errorString ''field cannot be set'') str)), field)
      else if Kind field \<noteq> Slice \<and> Kind field \<noteq> Array
        then (Some (Returned (EnvParseError (lookup tags ''name'') (errorString ''field is not a slice or array'') str)), field)
      else
        (let maxLength = (if Kind field = Array then length (elems field) else 0) in
         case parseArrayString str of
           Inl err \<Rightarrow> (Some (Returned (EnvParseError (lookup tags ''name'') err str)), field)
         | Inr strValues \<Rightarrow>
             if maxLength > 0 \<and> length strValues > maxLength
               then (Some (Returned (EnvParseError (lookup tags ''name'')
                                       (overflowError maxLength (length strValues)) str)), field)
             else setElements rt tags
                    (if Kind field = Slice then MakeSlice rt field (length strValues) else field)
                    strValues 0))"

subsection \<open>The structure walker\<close>

text \<open>
  The part of the loop body of \<^verbatim>\<open>LoadEnv\<close> after the struct case, in two
  steps. \<open>populate\<close> is what happens to the resolved string: an empty string is
  skipped, and any other is dispatched on the kind of the field. \<open>loadValue\<close>
  skips an untagged field and resolves the string first. Both give the failure
  (if any) and the value of the field afterwards.
\<close>

definition populate :: "'s runtime \<Rightarrow> tags \<Rightarrow> bool \<Rightarrow> 's goval \<Rightarrow> string \<Rightarrow> failure option \<times> 's goval" where
  "populate rt tags canSet v str =
     (if str = [] then (None, v)
      else if Kind v = Slice \<or> Kind v = Array then setIterableField rt canSet v str tags
      else (case setField rt canSet v str tags of
              Inl err \<Rightarrow> (Some err, v)
            | Inr v' \<Rightarrow> (None, v')))"

definition loadValue :: "'s runtime \<Rightarrow> tags \<Rightarrow> bool \<Rightarrow> 's goval \<Rightarrow> failure option \<times> 's goval" where
  "loadValue rt tags canSet v =
     (if lookup tags ''name'' = [] then (None, v)
      else (case getField rt tags of
              Inl err \<Rightarrow> (Some (Returned err), v)
            | Inr str \<Rightarrow> populate rt tags canSet v str))"

text \<open>
  The loop body (\<open>loadField\<close>) and the loop (\<open>loadFields\<close>) of \<^verbatim>\<open>LoadEnv\<close>. Each
  gives the failure (none when the source returns \<^verbatim>\<open>nil\<close>), the registry and the
  fields as the call left them. For a field of kind struct the source calls
  \<^verbatim>\<open>LoadEnv\<close> on the field's address; the field is a struct behind a pointer, so
  the call passes the check of \<^verbatim>\<open>LoadEnv\<close> and runs the loop on the nested fields
  (lemma \<open>nested_call_is_LoadEnv\<close> below). Taking the address for
  \<^verbatim>\<open>Interface()\<close> panics on an unexported field. The name in the nested error is
  \<^verbatim>\<open>Type().Field(0).Name\<close>, which panics on a struct without fields.
\<close>

function loadField :: "'s runtime \<Rightarrow> string set \<Rightarrow> 's gofield \<Rightarrow> failure option \<times> string set \<times> 's gofield"
  and loadFields :: "'s runtime \<Rightarrow> string set \<Rightarrow> 's gofield list \<Rightarrow> failure option \<times> string set \<times> 's gofield list"
where
  "loadField rt tagNames f =
     (case getTags tagNames (Tag f) of
        (Inl (Returned err), tagNames1) \<Rightarrow> (Some (Returned (tagsError (Name f) err)), tagNames1, f)
      | (Inl (Panicked p), tagNames1) \<Rightarrow> (Some (Panicked p), tagNames1, f)
      | (Inr tags, tagNames1) \<Rightarrow>
          (case val f of
             StructV nm inner \<Rightarrow>
               if \<not> exported f
                 then (Some (Panicked ''reflect.Value.Interface: cannot return value obtained from unexported field or method''),
                       tagNames1, f)
               else
                 (case loadFields rt tagNames1 inner of
                    (None, tagNames2, inner') \<Rightarrow>
                      (None, tagNames2, Field (Name f) (Tag f) (exported f) (StructV nm inner'))
                  | (Some (Returned err), tagNames2, inner') \<Rightarrow>
                      (case inner of
                         [] \<Rightarrow> (Some (Panicked ''reflect: Field index out of bounds''), tagNames2,
                                Field (Name f) (Tag f) (exported f) (StructV nm inner'))
                       | g # gs \<Rightarrow> (Some (Returned (nestedError (Name g) err)), tagNames2,
                                    Field (Name f) (Tag f) (exported f) (StructV nm inner')))
                  | (Some (Panicked p), tagNames2, inner') \<Rightarrow>
                      (Some (Panicked p), tagNames2, Field (Name f) (Tag f) (exported f) (StructV nm inner')))
           | v \<Rightarrow>
               (case loadValue rt tags (exported f) v of
                  (r, v') \<Rightarrow> (r, tagNames1, Field (Name f) (Tag f) (exported f) v'))))"
| "loadFields rt tagNames [] = (None, tagNames, [])"
| "loadFields rt tagNames (f # fs) =
     (case loadField rt tagNames f of
        (None, tagNames1, f') \<Rightarrow>
          (case loadFields rt tagNames1 fs of
             (r, tagNames2, fs') \<Rightarrow> (r, tagNames2, f' # fs'))
      | (Some e, tagNames1, f') \<Rightarrow> (Some e, tagNames1, f' # fs))"
  by pat_completeness auto
termination
proof (relation "measure (\<lambda>x. case x of Inl (rt, tn, f) \<Rightarrow> size f | Inr (rt, tn, fs) \<Rightarrow> size_list size fs)")
  show "wf (measure (\<lambda>x. case x of Inl (rt, tn, f) \<Rightarrow> size f | Inr (rt, tn, (fs :: 's gofield list)) \<Rightarrow> size_list size fs))"
    by simp
next
  fix rt :: "'s runtime" and tagNames :: "string set" and f :: "'s gofield"
    and x2 :: "'s goval" and x41 :: string and x42 :: "'s gofield list"
    and tagNames1 :: "string set"
  assume "val f = StructV x41 x42"
  then have "size f = size_list size x42 + 2"
    by (cases f) simp
  then show "(Inr (rt, tagNames1, x42), Inl (rt, tagNames, f))
      \<in> measure (\<lambda>x. case x of Inl (rt, tn, f) \<Rightarrow> size f | Inr (rt, tn, (fs :: 's gofield list)) \<Rightarrow> size_list size fs)"
    by simp
qed auto

declare loadField.simps [simp del]

definition LoadEnv :: "'s runtime \<Rightarrow> string set \<Rightarrow> 's iface \<Rightarrow> failure option \<times> string set \<times> 's iface" where
  "LoadEnv rt tagNames config =
     (if ifaceKind config \<noteq> Ptr \<or> elemKind config \<noteq> Struct
        then (Some (Returned (errorString ''config must be a pointer to a struct'')), tagNames, config)
      else (case config of
              Pointer (StructV nm fs) \<Rightarrow>
                (case loadFields rt tagNames fs of
                   (r, tagNames1, fs') \<Rightarrow> (r, tagNames1, Pointer (StructV nm fs')))
            | c \<Rightarrow> (None, tagNames, c)))"

subsection \<open>A run-time environment for the worked examples\<close>

text \<open>
  The examples below load fields of the types \<^verbatim>\<open>int\<close> (64 bits) and \<^verbatim>\<open>string\<close>,
  and of named types of a kind that \<^verbatim>\<open>fmt.Sscan\<close> does not scan (a map, say).
  Their scanner follows \<^verbatim>\<open>fmt.Sscan\<close> with one operand: leading white space is
  skipped and an input without a token gives \<^verbatim>\<open>io.EOF\<close>; an \<^verbatim>\<open>int\<close> target reads
  an optional sign and the decimal digits that follow, and what comes after them
  is left unread; a \<^verbatim>\<open>string\<close> target reads one word; a target of another type
  gives \<^verbatim>\<open>can't scan type: \<close> and the type of the pointer. It is a scanner for the
  examples only: white space is the ASCII white space, and a numeral with a
  leading zero or an underscore is read in base ten, where \<^verbatim>\<open>fmt.Sscan\<close> reads a
  base prefix or a digit separator; no example has such an input. The registry of
  converters is empty (the entry of \<^verbatim>\<open>slog.Level\<close>, with which the package starts,
  is left out: no example has a field of that type), and no variable is set,
  unless an example adds one.
\<close>

datatype basic = IntV int | StringV string | Opaque

definition tInt :: gotype where
  "tInt = TNamed ''int''"

definition tString :: gotype where
  "tString = TNamed ''string''"

fun position :: "char \<Rightarrow> string \<Rightarrow> nat \<Rightarrow> nat option" where
  "position c [] n = None"
| "position c (d # ds) n = (if c = d then Some n else position c ds (n + 1))"

definition digitOf :: "char \<Rightarrow> nat option" where
  "digitOf c = position c ''0123456789'' 0"

definition isSpace :: "char \<Rightarrow> bool" where
  "isSpace c = (c \<in> set [CHR 0x20, CHR 0x09, CHR 0x0A, CHR 0x0B, CHR 0x0C, CHR 0x0D])"

text \<open>The value and the text of the decimal digits at the start of a string.\<close>

fun scanDigits :: "string \<Rightarrow> nat \<Rightarrow> nat" where
  "scanDigits [] n = n"
| "scanDigits (c # cs) n =
     (case digitOf c of None \<Rightarrow> n | Some d \<Rightarrow> scanDigits cs (10 * n + d))"

fun digitsOf :: "string \<Rightarrow> string" where
  "digitsOf [] = []"
| "digitsOf (c # cs) = (case digitOf c of None \<Rightarrow> [] | Some d \<Rightarrow> c # digitsOf cs)"

definition outOfRange :: "string \<Rightarrow> error" where
  "outOfRange tok =
     errorString (''strconv.ParseInt: parsing '' @ [CHR 0x22] @ tok @ [CHR 0x22] @ '': value out of range'')"

definition scanInt :: "string \<Rightarrow> error + int" where
  "scanInt str =
     (case dropWhile isSpace str of
        [] \<Rightarrow> Inl (errorString ''EOF'')
      | c # cs \<Rightarrow>
          (let sign = (if c = CHR ''-'' \<or> c = CHR ''+'' then [c] else []);
               rest = (if sign = [] then c # cs else cs);
               n = scanDigits rest 0
           in if rest = [] then Inl (errorString ''EOF'')
              else if digitsOf rest = [] then Inl (errorString ''expected integer'')
              else if sign = ''-'' then
                (if n > 2 ^ 63 then Inl (outOfRange (sign @ digitsOf rest)) else Inr (- int n))
              else
                (if n \<ge> 2 ^ 63 then Inl (outOfRange (sign @ digitsOf rest)) else Inr (int n))))"

definition intV :: "int \<Rightarrow> basic goval" where
  "intV n = Scalar tInt (IntV n)"

definition stringV :: "string \<Rightarrow> basic goval" where
  "stringV s = Scalar tString (StringV s)"

definition scanWord :: "string \<Rightarrow> error + string" where
  "scanWord str =
     (case takeWhile (\<lambda>c. \<not> isSpace c) (dropWhile isSpace str) of
        [] \<Rightarrow> Inl (errorString ''EOF'')
      | c # cs \<Rightarrow> Inr (c # cs))"

definition exampleSscan :: "gotype \<Rightarrow> string \<Rightarrow> error + basic goval" where
  "exampleSscan t str =
     (if t = tInt then
        (case scanInt str of Inl err \<Rightarrow> Inl err | Inr n \<Rightarrow> Inr (intV n))
      else if t = tString then
        (case scanWord str of Inl err \<Rightarrow> Inl err | Inr w \<Rightarrow> Inr (stringV w))
      else Inl (errorString (''can't scan type: *'' @ typeString t)))"

definition exampleZero :: "gotype \<Rightarrow> basic goval" where
  "exampleZero t =
     (if t = tInt then intV 0 else if t = tString then stringV [] else Scalar t Opaque)"

definition unset :: "string \<Rightarrow> string" where
  "unset key = []"

definition exampleRt :: "(string \<Rightarrow> string) \<Rightarrow> basic runtime" where
  "exampleRt env = \<lparr>Getenv = env, envTypes = Map.empty, Sscan = exampleSscan, Zero = exampleZero\<rparr>"

subsection \<open>Notions used to state the properties\<close>

text \<open>
  A tag's option tokens (the tokens after the name) are well formed when every
  \<^verbatim>\<open>default\<close> keyword is followed by a value token. The value of a \<^verbatim>\<open>default\<close> is
  consumed with its keyword, so a value that happens to read \<^verbatim>\<open>default\<close> is not a
  keyword.
\<close>

fun keywordsOk :: "string list \<Rightarrow> bool" where
  "keywordsOk [] = True"
| "keywordsOk [k] = (k \<noteq> ''default'')"
| "keywordsOk (k # v # rest) = (if k = ''default'' then keywordsOk rest else keywordsOk (v # rest))"

definition defaultsHaveValues :: "string list \<Rightarrow> bool" where
  "defaultsHaveValues slice = keywordsOk (drop 1 slice)"

definition panics :: "failure + 'a \<Rightarrow> bool" where
  "panics r = (case r of Inl (Panicked p) \<Rightarrow> True | Inl (Returned e) \<Rightarrow> False | Inr x \<Rightarrow> False)"

text \<open>
  The conversion of a string for a type: by the registered converter when the
  type has one, by \<^verbatim>\<open>fmt.Sscan\<close> otherwise (the two branches of \<^verbatim>\<open>setField\<close>).
\<close>

definition isList :: "'s goval \<Rightarrow> bool" where
  "isList v = (Kind v = Slice \<or> Kind v = Array)"

definition convert :: "'s runtime \<Rightarrow> gotype \<Rightarrow> string \<Rightarrow> error + 's goval" where
  "convert rt t str = (case envTypes rt t of Some unmarshaller \<Rightarrow> unmarshaller str | None \<Rightarrow> Sscan rt t str)"

text \<open>
  Converters for the examples (the method \<^verbatim>\<open>UnmarshalEnv\<close> of a type that a
  program defines and registers): for a type \<^verbatim>\<open>Mode\<close> of a kind other than
  struct, slice or array; for a struct type \<^verbatim>\<open>Endpoint\<close>; for a defined slice type
  \<^verbatim>\<open>Ports\<close> (\<^verbatim>\<open>[]int\<close>) and a defined array type \<^verbatim>\<open>Pair\<close> (\<^verbatim>\<open>[2]int\<close>); and
  one for \<^verbatim>\<open>Mode\<close> whose value for \<^verbatim>\<open>fast\<close> is a \<^verbatim>\<open>string\<close>, not a \<^verbatim>\<open>Mode\<close>.
\<close>

definition tMode :: gotype where
  "tMode = TNamed ''Mode''"





definition stringModeConverter :: "string \<Rightarrow> error + basic goval" where
  "stringModeConverter str =
     (if str = ''fast'' then Inr (stringV str) else Inl (errorString ''unknown mode''))"

text \<open>
  The directive name of a field is the first token of its tag (no token, no name).
  \<open>walk\<close> lists a field and the fields nested in it in the order in which
  \<^verbatim>\<open>LoadEnv\<close> parses their tags: a field first, then the fields of its struct
  value. \<open>directives\<close> are the directive names of a field list in that order.
\<close>

definition directive :: "'s gofield \<Rightarrow> string list" where
  "directive f = take 1 (FieldsFunc (Tag f) SplitTags)"

primrec walk :: "'s gofield \<Rightarrow> 's gofield list"
  and walkValue :: "'s goval \<Rightarrow> 's gofield list" where
  "walk (Field n t e v) = Field n t e v # walkValue v"
| "walkValue (Scalar t x) = []"
| "walkValue (SliceV t xs) = []"
| "walkValue (ArrayV t xs) = []"
| "walkValue (StructV nm fs) = concat (map walk fs)"
| "walkValue (NamedSliceV nm t xs) = []"
| "walkValue (NamedArrayV nm t xs) = []"

definition directives :: "'s gofield list \<Rightarrow> string list" where
  "directives fs = concat (map directive (concat (map walk fs)))"

text \<open>
  \<open>parses rt tagNames fs earlier ctx tagNames' g\<close>: the load of the fields \<open>fs\<close> that
  starts with the registry \<open>tagNames\<close> comes to parse the tag of the field \<open>g\<close>; at
  that moment the registry is \<open>tagNames'\<close>, the fields \<open>earlier\<close> have had their
  tags parsed, and \<open>ctx\<close> holds, outermost first, the name of the first field of
  each nested struct the load is inside of. The tag of the first field is always
  parsed; the load goes into an exported struct field whose tag parsed; and it
  goes on to the next field when the field before it has loaded without a
  failure.
\<close>

inductive parses :: "'s runtime \<Rightarrow> string set \<Rightarrow> 's gofield list \<Rightarrow> 's gofield list \<Rightarrow> string list \<Rightarrow> string set \<Rightarrow> 's gofield \<Rightarrow> bool" where
  first: "parses rt tagNames (f # fs) [] [] tagNames f"
| inner: "getTags tagNames (Tag f) = (Inr tags, tagNames1) \<Longrightarrow> val f = StructV nm nested \<Longrightarrow> exported f \<Longrightarrow>
          parses rt tagNames1 nested earlier ctx tagNames' g \<Longrightarrow>
          parses rt tagNames (f # fs) (f # earlier) (Name (hd nested) # ctx) tagNames' g"
| later: "loadField rt tagNames f = (None, tagNames1, f') \<Longrightarrow>
          parses rt tagNames1 fs earlier ctx tagNames' g \<Longrightarrow>
          parses rt tagNames (f # fs) (walk f @ earlier) ctx tagNames' g"

definition nestedPrefix :: "string \<Rightarrow> string" where
  "nestedPrefix fieldName = ''error loading nested struct '' @ apos @ fieldName @ apos @ '': ''"

text \<open>The registry after a sequence of \<^verbatim>\<open>LoadEnv\<close> calls, with no reset in between.\<close>

fun registryAfter :: "('s runtime \<times> 's iface) list \<Rightarrow> string set \<Rightarrow> string set" where
  "registryAfter [] tagNames = tagNames"
| "registryAfter ((rt, config) # calls) tagNames =
     registryAfter calls (fst (snd (LoadEnv rt tagNames config)))"

section \<open>Properties\<close>

subsection \<open>Auxiliary facts\<close>

lemma showNat_digit: "n < 10 \<Longrightarrow> showNat n = [digit n]"
  by (simp add: showNat.simps)

lemma example_values [simp]:
  "typeOf (intV n) = tInt" "typeOf (stringV s) = tString"
  "Kind (intV n) = Other" "Kind (stringV s) = Other"
  "tInt \<noteq> tString" "tString \<noteq> tInt"
  "(intV n = intV n') = (n = n')" "(stringV s = stringV s') = (s = s')"
  by (simp_all add: intV_def stringV_def tInt_def tString_def)

lemma exampleRt_simps [simp]:
  "Getenv (exampleRt env) = env" "envTypes (exampleRt env) = Map.empty"
  "Sscan (exampleRt env) = exampleSscan" "Zero (exampleRt env) = exampleZero"
  by (simp_all add: exampleRt_def)

lemma exampleZero_simps [simp]:
  "exampleZero tInt = intV 0" "exampleZero tString = stringV []"
  by (simp_all add: exampleZero_def)

lemmas example_eval = exampleSscan_def exampleZero_def scanInt_def scanWord_def isSpace_def digitOf_def
  tInt_def tString_def intV_def stringV_def assignable_def Let_def

lemma panics_simps [simp]:
  "panics (Inl (Panicked p)) = True" "panics (Inl (Returned e)) = False" "panics (Inr x) = False"
  "panics (Inl (indexPanic i n)) = True"
  by (simp_all add: panics_def indexPanic_def)

lemma keywordsOk_drop_step:
  assumes "index < length slice" "keywordsOk (drop index slice)"
  shows "slice ! index = ''default'' \<Longrightarrow> index + 1 < length slice \<and> keywordsOk (drop (index + 1 + 1) slice)"
    and "slice ! index \<noteq> ''default'' \<Longrightarrow> keywordsOk (drop (index + 1) slice)"
proof -
  have d: "drop index slice = slice ! index # drop (Suc index) slice"
    using assms(1) by (simp add: Cons_nth_drop_Suc)
  {
    assume k: "slice ! index = ''default''"
    show "index + 1 < length slice \<and> keywordsOk (drop (index + 1 + 1) slice)"
    proof (cases "drop (Suc index) slice")
      case Nil
      with d k assms(2) show ?thesis by simp
    next
      case (Cons v rest)
      then have lt: "Suc index < length slice" by (cases "Suc index < length slice") auto
      then have "drop (Suc index) slice = slice ! Suc index # drop (Suc (Suc index)) slice"
        by (simp add: Cons_nth_drop_Suc)
      with Cons d k assms(2) lt show ?thesis by simp
    qed
  }
  {
    assume k: "slice ! index \<noteq> ''default''"
    show "keywordsOk (drop (index + 1) slice)"
    proof (cases "drop (Suc index) slice")
      case Nil
      then show ?thesis by simp
    next
      case (Cons v rest)
      with d k assms(2) show ?thesis by simp
    qed
  }
qed

lemma tagLoop_end: "\<not> index < length slice \<Longrightarrow> tagLoop slice index m tagNames = (Inr m, tagNames)"
  by (subst tagLoop.simps) simp

lemma tagLoop_flag:
  "0 < index \<Longrightarrow> index < length slice \<Longrightarrow> slice ! index \<noteq> ''default'' \<Longrightarrow>
   tagLoop slice index m tagNames = tagLoop slice (index + 1) (m(slice ! index \<mapsto> [])) tagNames"
  by (subst tagLoop.simps) (simp add: Let_def)

lemma tagLoop_default:
  "0 < index \<Longrightarrow> index < length slice \<Longrightarrow> slice ! index = ''default'' \<Longrightarrow> m ''default'' = None \<Longrightarrow>
   index + 1 < length slice \<Longrightarrow>
   tagLoop slice index m tagNames =
     tagLoop slice (index + 1 + 1) (m(slice ! index \<mapsto> slice ! (index + 1))) tagNames"
  by (subst tagLoop.simps) (simp add: Let_def)

lemma tagLoop_default_twice:
  "0 < index \<Longrightarrow> index < length slice \<Longrightarrow> slice ! index = ''default'' \<Longrightarrow> m ''default'' \<noteq> None \<Longrightarrow>
   tagLoop slice index m tagNames = (Inl (Returned (duplicateTag ''default'')), tagNames)"
  by (subst tagLoop.simps) (simp add: Let_def)

lemma tagLoop_default_last:
  "0 < index \<Longrightarrow> index < length slice \<Longrightarrow> slice ! index = ''default'' \<Longrightarrow> m ''default'' = None \<Longrightarrow>
   \<not> index + 1 < length slice \<Longrightarrow>
   tagLoop slice index m tagNames = (Inl (indexPanic (index + 1) (length slice)), tagNames)"
  by (subst tagLoop.simps) (simp add: Let_def)

lemma tagLoop_no_panic:
  "0 < index \<Longrightarrow> keywordsOk (drop index slice) \<Longrightarrow> \<not> panics (fst (tagLoop slice index m tagNames))"
proof (induction slice index m tagNames rule: tagLoop.induct)
  case (1 slice index m tagNames)
  show ?case
  proof (cases "index < length slice")
    case False
    then show ?thesis by (simp add: tagLoop_end)
  next
    case True
    note step = keywordsOk_drop_step [OF True "1.prems"(2)]
    show ?thesis
    proof (cases "slice ! index = ''default''")
      case d: True
      show ?thesis
      proof (cases "m ''default'' = None")
        case False
        with True d "1.prems"(1) show ?thesis
          by (simp add: tagLoop_default_twice)
      next
        case n: True
        have lt: "index + 1 < length slice" and ok: "keywordsOk (drop (index + 1 + 1) slice)"
          using step(1) [OF d] by simp_all
        have "\<not> panics (fst (tagLoop slice (index + 1 + 1) (m(slice ! index \<mapsto> slice ! (index + 1))) tagNames))"
        proof (rule "1.IH"(2) [OF True refl _ _ _ lt])
          show "index \<noteq> 0" using "1.prems"(1) by simp
          show "slice ! index = ''default''" by (rule d)
          show "\<not> m (slice ! index) \<noteq> None" using n d by simp
          show "0 < index + 1 + 1" by simp
          show "keywordsOk (drop (index + 1 + 1) slice)" by (rule ok)
        qed
        then show ?thesis
            unfolding tagLoop_default [where m = m, OF "1.prems"(1) True d n lt] .
      qed
    next
      case nd: False
      have "\<not> panics (fst (tagLoop slice (index + 1) (m(slice ! index \<mapsto> [])) tagNames))"
      proof (rule "1.IH"(3) [OF True refl])
        show "index \<noteq> 0" using "1.prems"(1) by simp
        show "slice ! index \<noteq> ''default''" by (rule nd)
        show "0 < index + 1" by simp
        show "keywordsOk (drop (index + 1) slice)" by (rule step(2) [OF nd])
      qed
      then show ?thesis
            unfolding tagLoop_flag [OF "1.prems"(1) True nd] .
    qed
  qed
qed

lemma tagSliceToKeyMap_no_panic:
  "defaultsHaveValues slice \<Longrightarrow> \<not> panics (fst (tagSliceToKeyMap tagNames slice))"
proof (cases slice)
  case Nil
  then show ?thesis by (simp add: tagSliceToKeyMap_def tagLoop.simps)
next
  case (Cons n rest)
  assume "defaultsHaveValues slice"
  then have "\<not> panics (fst (tagLoop slice 1 (Map.empty(''name'' \<mapsto> n)) (insert n tagNames)))"
    by (intro tagLoop_no_panic) (simp_all add: defaultsHaveValues_def)
  with Cons show ?thesis
    by (simp add: tagSliceToKeyMap_def tagLoop.simps [of _ 0] duplicateTag_def)
qed

lemma tagLoop_registry: "0 < index \<Longrightarrow> snd (tagLoop slice index m tagNames) = tagNames"
proof (induction slice index m tagNames rule: tagLoop.induct)
  case (1 slice index m tagNames)
  show ?case
  proof (cases "index < length slice")
    case False
    then show ?thesis by (simp add: tagLoop_end)
  next
    case True
    show ?thesis
    proof (cases "slice ! index = ''default''")
      case nd: False
      have "snd (tagLoop slice (index + 1) (m(slice ! index \<mapsto> [])) tagNames) = tagNames"
      proof (rule "1.IH"(3) [OF True refl])
        show "index \<noteq> 0" using "1.prems"(1) by simp
        show "slice ! index \<noteq> ''default''" by (rule nd)
        show "0 < index + 1" by simp
      qed
      then show ?thesis
            unfolding tagLoop_flag [OF "1.prems"(1) True nd] .
    next
      case d: True
      show ?thesis
      proof (cases "m ''default'' = None")
        case False
        with True d "1.prems"(1) show ?thesis
          by (simp add: tagLoop_default_twice)
      next
        case n: True
        show ?thesis
        proof (cases "index + 1 < length slice")
          case False
          then show ?thesis
            by (simp add: tagLoop_default_last [where m = m, OF "1.prems"(1) True d n])
        next
          case lt: True
          have "snd (tagLoop slice (index + 1 + 1) (m(slice ! index \<mapsto> slice ! (index + 1))) tagNames) = tagNames"
          proof (rule "1.IH"(2) [OF True refl _ _ _ lt])
            show "index \<noteq> 0" using "1.prems"(1) by simp
            show "slice ! index = ''default''" by (rule d)
            show "\<not> m (slice ! index) \<noteq> None" using n d by simp
            show "0 < index + 1 + 1" by simp
          qed
          then show ?thesis
            unfolding tagLoop_default [where m = m, OF "1.prems"(1) True d n lt] .
        qed
      qed
    qed
  qed
qed

lemma tagSliceToKeyMap_registry:
  "snd (tagSliceToKeyMap tagNames slice) = tagNames \<union> set (take 1 slice)"
  by (cases slice) (simp_all add: tagSliceToKeyMap_def tagLoop.simps [of _ 0] tagLoop_registry insert_absorb)

lemma tagSliceToKeyMap_duplicate:
  "n \<in> tagNames \<Longrightarrow> tagSliceToKeyMap tagNames (n # rest) = (Inl (Returned (duplicateTag n)), tagNames)"
  by (simp add: tagSliceToKeyMap_def tagLoop.simps [of _ 0])

lemma unset_simps [simp]: "unset k = []" "(unset(k := v)) k = v" "k' \<noteq> k \<Longrightarrow> (unset(k := v)) k' = []"
  by (simp_all add: unset_def)

lemmas tag_eval = getTags_def tagSliceToKeyMap_def FieldsFunc_def SplitTags_def tagLoop.simps Let_def
lemmas load_eval = loadField.simps loadValue_def populate_def getField_def lookup_def setField_def
  setIterableField_def parseArrayString_def MakeSlice_def setElements.simps Index_def

lemma loadField_non_struct:
  assumes "getTags tagNames (Tag f) = (Inr tags, tagNames1)" and "Kind (val f) \<noteq> Struct"
  shows "loadField rt tagNames f =
           (case loadValue rt tags (exported f) (val f) of
              (r, v') \<Rightarrow> (r, tagNames1, Field (Name f) (Tag f) (exported f) v'))"
  using assms by (cases "val f") (simp_all add: loadField.simps)

lemma loadField_struct:
  assumes "getTags tagNames (Tag f) = (Inr tags, tagNames1)" and "val f = StructV nm inner" and "exported f"
  shows "loadField rt tagNames f =
     (case loadFields rt tagNames1 inner of
        (None, tagNames2, inner') \<Rightarrow> (None, tagNames2, Field (Name f) (Tag f) (exported f) (StructV nm inner'))
      | (Some (Returned err), tagNames2, inner') \<Rightarrow>
          (case inner of
             [] \<Rightarrow> (Some (Panicked ''reflect: Field index out of bounds''), tagNames2,
                    Field (Name f) (Tag f) (exported f) (StructV nm inner'))
           | g # gs \<Rightarrow> (Some (Returned (nestedError (Name g) err)), tagNames2,
                        Field (Name f) (Tag f) (exported f) (StructV nm inner')))
      | (Some (Panicked p), tagNames2, inner') \<Rightarrow>
          (Some (Panicked p), tagNames2, Field (Name f) (Tag f) (exported f) (StructV nm inner')))"
  using assms by (simp add: loadField.simps)

lemma field_collapse: "Field (Name f) (Tag f) (exported f) (val f) = f"
  by (cases f) simp


lemma not_pointer_to_struct:
  "(ifaceKind config \<noteq> Ptr \<or> elemKind config \<noteq> Struct) = (\<nexists>nm fs. config = Pointer (StructV nm fs))"
proof (cases config)
  case (Value v)
  then show ?thesis by simp
next
  case (Pointer v)
  then show ?thesis by (cases v) simp_all
qed simp_all

lemma nested_call_is_LoadEnv:
  "LoadEnv rt tagNames (Pointer (StructV nm fs)) =
     (case loadFields rt tagNames fs of (r, tagNames1, fs') \<Rightarrow> (r, tagNames1, Pointer (StructV nm fs')))"
  by (simp add: LoadEnv_def)

subsection \<open>The argument of a load\<close>

text \<open>
  Claim C6. When the argument of \<^verbatim>\<open>LoadEnv\<close> is not a pointer to a struct (it is
  nil, a value passed by value, a nil pointer, or a pointer to a value of another
  kind), the call returns the error \<^verbatim>\<open>config must be a pointer to a struct\<close>, the
  registry of directive names is the one it started with, and the argument is
  unchanged.
\<close>

theorem LoadEnv_not_pointer_to_struct:
  assumes "\<nexists>nm fs. config = Pointer (StructV nm fs)"
  shows "LoadEnv rt tagNames config =
           (Some (Returned (errorString ''config must be a pointer to a struct'')), tagNames, config)
         \<and> Error (errorString ''config must be a pointer to a struct'') = ''config must be a pointer to a struct''"
  using assms unfolding LoadEnv_def not_pointer_to_struct by simp

theorem LoadEnv_not_pointer_to_struct_witness:
  "LoadEnv (exampleRt unset) {''SEEN''} (Value (StructV ''Config'' [Field ''Host'' ''HOST'' True (stringV [])])) =
     (Some (Returned (errorString ''config must be a pointer to a struct'')), {''SEEN''},
      Value (StructV ''Config'' [Field ''Host'' ''HOST'' True (stringV [])]))
   \<and> LoadEnv (exampleRt unset) {''SEEN''} (Pointer (intV 7)) =
     (Some (Returned (errorString ''config must be a pointer to a struct'')), {''SEEN''}, Pointer (intV 7))"
  using LoadEnv_not_pointer_to_struct
          [of "Value (StructV ''Config'' [Field ''Host'' ''HOST'' True (stringV [])])" "exampleRt unset" "{''SEEN''}"]
        LoadEnv_not_pointer_to_struct [of "Pointer (intV 7)" "exampleRt unset" "{''SEEN''}"]
  by (simp add: intV_def)

subsection \<open>Tag parsing\<close>

text \<open>
  Claim C10. On the tag \<^verbatim>\<open>NAME;default\<close> the tokens are \<^verbatim>\<open>NAME\<close> and \<^verbatim>\<open>default\<close>;
  at index 1 the parser reads \<^verbatim>\<open>slice[index+1]\<close>, that is index 2 of a slice of
  length 2, and panics instead of returning an error (the name has been recorded
  by then). When every \<^verbatim>\<open>default\<close> keyword of a token slice is followed by a value
  token, parsing the slice does not panic, whatever the registry holds.
\<close>

theorem default_without_value_reads_past_the_end:
  "getTags {} ''NAME;default'' = (Inl (indexPanic 2 2), {''NAME''}) \<and>
   indexPanic 2 2 = Panicked ''runtime error: index out of range [2] with length 2'' \<and>
   (\<forall>tagNames slice. defaultsHaveValues slice \<longrightarrow> \<not> panics (fst (tagSliceToKeyMap tagNames slice)))"
proof -
  have "getTags {} ''NAME;default'' = (Inl (indexPanic 2 2), {''NAME''})"
    by (simp add: getTags_def tagSliceToKeyMap_def FieldsFunc_def SplitTags_def tagLoop.simps numeral_2_eq_2)
  moreover have "indexPanic 2 2 = Panicked ''runtime error: index out of range [2] with length 2''"
    by (simp add: indexPanic_def showNat_digit digit_def)
  ultimately show ?thesis
    using tagSliceToKeyMap_no_panic by blast
qed

theorem default_without_value_reads_past_the_end_witness:
  "defaultsHaveValues [''NAME'', ''default'', ''x''] \<and>
   \<not> panics (fst (tagSliceToKeyMap {} [''NAME'', ''default'', ''x'']))"
proof -
  have ok: "defaultsHaveValues [''NAME'', ''default'', ''x'']"
    by (simp add: defaultsHaveValues_def)
  with default_without_value_reads_past_the_end show ?thesis
    by blast
qed

subsection \<open>Bracketed lists\<close>

text \<open>
  Claim C2. The source rejects a string only when it is shorter than two bytes or
  when both brackets are missing: its test joins the two bracket checks with
  \<^verbatim>\<open>&&\<close>. A string with one of the two brackets is accepted, its first and last
  bytes are dropped, and the elements are written to the field. The inputs
  \<^verbatim>\<open>[1,2}\<close> and \<^verbatim>\<open>{1,2]\<close> each lack one bracket and parse to the elements 1 and 2;
  loading \<^verbatim>\<open>[1,2}\<close> into an \<^verbatim>\<open>[]int\<close> field succeeds and stores them.
\<close>

theorem parseArrayString_accepts_one_bracket:
  "parseArrayString ''[1,2}'' = Inr [''1'', ''2''] \<and>
   parseArrayString ''{1,2]'' = Inr [''1'', ''2''] \<and>
   loadFields (exampleRt (unset(''INT_SLICE'' := ''[1,2}''))) {}
     [Field ''IntSlice'' ''INT_SLICE'' True (SliceV tInt [])] =
   (None, {''INT_SLICE''}, [Field ''IntSlice'' ''INT_SLICE'' True (SliceV tInt [intV 1, intV 2])])"
  by (simp add: tag_eval load_eval example_eval)

subsection \<open>Resolving the value of a field\<close>

lemma tagLoop_name:
  "0 < index \<Longrightarrow> tagLoop slice index m tagNames = (Inr tags, tagNames') \<Longrightarrow>
   tags ''name'' = m ''name'' \<or> tags ''name'' = Some []"
proof (induction slice index m tagNames rule: tagLoop.induct)
  case (1 slice index m tagNames)
  show ?case
  proof (cases "index < length slice")
    case False
    with "1.prems"(2) show ?thesis by (simp add: tagLoop_end)
  next
    case True
    show ?thesis
    proof (cases "slice ! index = ''default''")
      case nd: False
      have r: "tagLoop slice (index + 1) (m(slice ! index \<mapsto> [])) tagNames = (Inr tags, tagNames')"
        using "1.prems"(2) unfolding tagLoop_flag [OF "1.prems"(1) True nd] .
      have "tags ''name'' = (m(slice ! index \<mapsto> [])) ''name'' \<or> tags ''name'' = Some []"
      proof (rule "1.IH"(3) [OF True refl])
        show "index \<noteq> 0" using "1.prems"(1) by simp
        show "slice ! index \<noteq> ''default''" by (rule nd)
        show "0 < index + 1" by simp
        show "tagLoop slice (index + 1) (m(slice ! index \<mapsto> [])) tagNames = (Inr tags, tagNames')" by (rule r)
      qed
      then show ?thesis
        by (cases "slice ! index = ''name''") simp_all
    next
      case d: True
      show ?thesis
      proof (cases "m ''default'' = None")
        case False
        with True d "1.prems" show ?thesis
          by (simp add: tagLoop_default_twice)
      next
        case n: True
        show ?thesis
        proof (cases "index + 1 < length slice")
          case False
          with "1.prems"(2) show ?thesis
            by (simp add: tagLoop_default_last [where m = m, OF "1.prems"(1) True d n] indexPanic_def)
        next
          case lt: True
          have r: "tagLoop slice (index + 1 + 1) (m(slice ! index \<mapsto> slice ! (index + 1))) tagNames = (Inr tags, tagNames')"
            using "1.prems"(2) unfolding tagLoop_default [where m = m, OF "1.prems"(1) True d n lt] .
          have "tags ''name'' = (m(slice ! index \<mapsto> slice ! (index + 1))) ''name'' \<or> tags ''name'' = Some []"
          proof (rule "1.IH"(2) [OF True refl _ _ _ lt])
            show "index \<noteq> 0" using "1.prems"(1) by simp
            show "slice ! index = ''default''" by (rule d)
            show "\<not> m (slice ! index) \<noteq> None" using n d by simp
            show "0 < index + 1 + 1" by simp
            show "tagLoop slice (index + 1 + 1) (m(slice ! index \<mapsto> slice ! (index + 1))) tagNames = (Inr tags, tagNames')"
              by (rule r)
          qed
          then show ?thesis
            by (simp add: d)
        qed
      qed
    qed
  qed
qed

lemma getTags_name:
  assumes "getTags tagNames tag = (Inr tags, tagNames1)" and "lookup tags ''name'' \<noteq> []"
  shows "take 1 (FieldsFunc tag SplitTags) = [lookup tags ''name'']"
proof (cases "FieldsFunc tag SplitTags")
  case Nil
  with assms show ?thesis
    by (auto simp add: getTags_def tagSliceToKeyMap_def tagLoop.simps lookup_def)
next
  case (Cons n rest)
  with assms(1) have "n \<notin> tagNames"
    and r: "tagLoop (n # rest) 1 (Map.empty(''name'' \<mapsto> n)) (insert n tagNames) = (Inr tags, tagNames1)"
    by (auto simp add: getTags_def tagSliceToKeyMap_def tagLoop.simps [of _ 0] split: if_splits)
  have "tags ''name'' = (Map.empty(''name'' \<mapsto> n)) ''name'' \<or> tags ''name'' = Some []"
    by (rule tagLoop_name [OF _ r]) simp
  with assms(2) have "lookup tags ''name'' = n"
    by (auto simp add: lookup_def)
  with Cons show ?thesis by simp
qed

text \<open>
  Claim C1, for the fields that are not of kind struct and whose parsed directive
  set \<open>tags\<close> has a non-empty name. That name is the first token of the tag (the
  directive name). If the environment has a non-empty value for the name, that
  value is the string the field is populated from; otherwise, if the directive
  set has a default, the default is; otherwise, if it has \<^verbatim>\<open>optional\<close>, the field
  keeps its value and the loop goes on with the next field; otherwise the load
  stops with the \<^verbatim>\<open>EnvNotFoundError\<close> of the name, whose message is
  \<^verbatim>\<open>environment variable not found: <name>\<close>.
\<close>

theorem resolution_of_a_field:
  assumes "getTags tagNames (Tag f) = (Inr tags, tagNames1)"
    and "Kind (val f) \<noteq> Struct"
    and "lookup tags ''name'' = name" and "name \<noteq> []"
  shows
   "directive f = [name] \<and>
    (Getenv rt name \<noteq> [] \<longrightarrow>
       getField rt tags = Inr (Getenv rt name) \<and>
       loadField rt tagNames f =
         (case populate rt tags (exported f) (val f) (Getenv rt name) of
            (r, v') \<Rightarrow> (r, tagNames1, Field (Name f) (Tag f) (exported f) v'))) \<and>
    (Getenv rt name = [] \<and> tags ''default'' = Some d \<longrightarrow>
       getField rt tags = Inr d \<and>
       loadField rt tagNames f =
         (case populate rt tags (exported f) (val f) d of
            (r, v') \<Rightarrow> (r, tagNames1, Field (Name f) (Tag f) (exported f) v'))) \<and>
    (Getenv rt name = [] \<and> tags ''default'' = None \<and> tags ''optional'' \<noteq> None \<longrightarrow>
       getField rt tags = Inr [] \<and>
       loadField rt tagNames f = (None, tagNames1, f) \<and>
       loadFields rt tagNames (f # fs) =
         (case loadFields rt tagNames1 fs of (r, tagNames2, fs') \<Rightarrow> (r, tagNames2, f # fs'))) \<and>
    (Getenv rt name = [] \<and> tags ''default'' = None \<and> tags ''optional'' = None \<longrightarrow>
       getField rt tags = Inl (EnvNotFoundError name) \<and>
       loadFields rt tagNames (f # fs) = (Some (Returned (EnvNotFoundError name)), tagNames1, f # fs) \<and>
       Error (EnvNotFoundError name) = ''environment variable not found: '' @ name)"
proof -
  note lf = loadField_non_struct [OF assms(1,2), of rt]
  have g1: "Getenv rt name \<noteq> [] \<Longrightarrow> getField rt tags = Inr (Getenv rt name)"
    using assms(3) by (simp add: getField_def)
  have g2: "Getenv rt name = [] \<Longrightarrow> tags ''default'' = Some d \<Longrightarrow> getField rt tags = Inr d"
    using assms(3) by (simp add: getField_def)
  have g3: "Getenv rt name = [] \<Longrightarrow> tags ''default'' = None \<Longrightarrow> tags ''optional'' \<noteq> None \<Longrightarrow>
            getField rt tags = Inr []"
    using assms(3) by (auto simp add: getField_def)
  have g4: "Getenv rt name = [] \<Longrightarrow> tags ''default'' = None \<Longrightarrow> tags ''optional'' = None \<Longrightarrow>
            getField rt tags = Inl (EnvNotFoundError name)"
    using assms(3) by (simp add: getField_def)
  have lv: "loadValue rt tags (exported f) (val f) =
      (case getField rt tags of Inl err \<Rightarrow> (Some (Returned err), val f)
       | Inr str \<Rightarrow> populate rt tags (exported f) (val f) str)"
    using assms(3,4) by (simp add: loadValue_def)
  have dn: "directive f = [name]"
    using getTags_name [OF assms(1)] assms(3,4) by (simp add: directive_def)
  show ?thesis
    by (auto simp add: dn lf lv g1 g2 g3 g4 populate_def field_collapse)
qed

theorem resolution_of_a_field_witness:
  "loadFields (exampleRt (unset(''PORT'' := ''8080''))) {} [Field ''Port'' ''PORT'' True (intV 0)] =
     (None, {''PORT''}, [Field ''Port'' ''PORT'' True (intV 8080)]) \<and>
   loadFields (exampleRt unset) {} [Field ''User'' ''DB_USER;default:user'' True (stringV [])] =
     (None, {''DB_USER''}, [Field ''User'' ''DB_USER;default:user'' True (stringV ''user'')]) \<and>
   loadFields (exampleRt unset) {} [Field ''LogLevel'' ''LOG_LEVEL;optional'' True (stringV []), Field ''Port'' [] True (intV 0)] =
     (None, {''LOG_LEVEL''}, [Field ''LogLevel'' ''LOG_LEVEL;optional'' True (stringV []), Field ''Port'' [] True (intV 0)]) \<and>
   loadFields (exampleRt unset) {} [Field ''Host'' ''HOST'' True (stringV []), Field ''Port'' [] True (intV 0)] =
     (Some (Returned (EnvNotFoundError ''HOST'')), {''HOST''},
      [Field ''Host'' ''HOST'' True (stringV []), Field ''Port'' [] True (intV 0)]) \<and>
   Error (EnvNotFoundError ''HOST'') = ''environment variable not found: HOST''"
proof -
  have t1: "getTags {} (Tag (Field ''Port'' ''PORT'' True (intV 0))) = (Inr [''name'' \<mapsto> ''PORT''], {''PORT''})"
    by (simp add: tag_eval)
  have p1: "populate (exampleRt (unset(''PORT'' := ''8080''))) [''name'' \<mapsto> ''PORT''] True (intV 0) ''8080'' = (None, intV 8080)"
    by (simp add: populate_def setField_def example_eval)
  have w1: "loadFields (exampleRt (unset(''PORT'' := ''8080''))) {} [Field ''Port'' ''PORT'' True (intV 0)] =
     (None, {''PORT''}, [Field ''Port'' ''PORT'' True (intV 8080)])"
    using resolution_of_a_field [OF t1, of "''PORT''" "exampleRt (unset(''PORT'' := ''8080''))"] p1
    by (simp add: lookup_def)
  have t2: "getTags {} (Tag (Field ''User'' ''DB_USER;default:user'' True (stringV []))) =
      (Inr [''name'' \<mapsto> ''DB_USER'', ''default'' \<mapsto> ''user''], {''DB_USER''})"
    by (simp add: tag_eval)
  have p2: "populate (exampleRt unset) [''name'' \<mapsto> ''DB_USER'', ''default'' \<mapsto> ''user''] True (stringV []) ''user'' = (None, stringV ''user'')"
    by (simp add: populate_def setField_def example_eval)
  have w2: "loadFields (exampleRt unset) {} [Field ''User'' ''DB_USER;default:user'' True (stringV [])] =
     (None, {''DB_USER''}, [Field ''User'' ''DB_USER;default:user'' True (stringV ''user'')])"
    using resolution_of_a_field [OF t2, of "''DB_USER''" "exampleRt unset" "''user''"] p2
    by (simp add: lookup_def)
  have t3: "getTags {} (Tag (Field ''LogLevel'' ''LOG_LEVEL;optional'' True (stringV []))) =
      (Inr [''name'' \<mapsto> ''LOG_LEVEL'', ''optional'' \<mapsto> []], {''LOG_LEVEL''})"
    by (simp add: tag_eval)
  have rest: "loadFields (exampleRt unset) {''LOG_LEVEL''} [Field ''Port'' [] True (intV 0)] =
      (None, {''LOG_LEVEL''}, [Field ''Port'' [] True (intV 0)])"
    by (simp add: tag_eval loadField.simps loadValue_def lookup_def intV_def)
  have w3: "loadFields (exampleRt unset) {} [Field ''LogLevel'' ''LOG_LEVEL;optional'' True (stringV []), Field ''Port'' [] True (intV 0)] =
     (None, {''LOG_LEVEL''}, [Field ''LogLevel'' ''LOG_LEVEL;optional'' True (stringV []), Field ''Port'' [] True (intV 0)])"
    using resolution_of_a_field [OF t3, of "''LOG_LEVEL''" "exampleRt unset" _ "[Field ''Port'' [] True (intV 0)]"] rest
    by (simp add: lookup_def)
  have t4: "getTags {} (Tag (Field ''Host'' ''HOST'' True (stringV []))) = (Inr [''name'' \<mapsto> ''HOST''], {''HOST''})"
    by (simp add: tag_eval)
  have w4: "loadFields (exampleRt unset) {} [Field ''Host'' ''HOST'' True (stringV []), Field ''Port'' [] True (intV 0)] =
     (Some (Returned (EnvNotFoundError ''HOST'')), {''HOST''},
      [Field ''Host'' ''HOST'' True (stringV []), Field ''Port'' [] True (intV 0)]) \<and>
   Error (EnvNotFoundError ''HOST'') = ''environment variable not found: HOST''"
    using resolution_of_a_field [OF t4, of "''HOST''" "exampleRt unset" _ "[Field ''Port'' [] True (intV 0)]"]
    by (simp add: lookup_def)
  from w1 w2 w3 w4 show ?thesis by simp
qed

text \<open>
  Two fields with a non-empty directive name, no default and no \<^verbatim>\<open>optional\<close>,
  whose variable is not set, and a load that succeeds all the same. The first is
  of kind struct, with the directive name \<^verbatim>\<open>DB\<close>: resolving the directive set
  of the field would give the \<^verbatim>\<open>EnvNotFoundError\<close>, but \<^verbatim>\<open>LoadEnv\<close> tests the kind
  first, recurses into the struct and goes on. The second has the tag
  \<^verbatim>\<open>HOST;name\<close>: its directive name is \<^verbatim>\<open>HOST\<close>, but the option keyword \<^verbatim>\<open>name\<close>
  is stored under the key of the name, with the empty string, and \<^verbatim>\<open>LoadEnv\<close>
  skips the field as if it had no tag.
\<close>

theorem named_field_is_not_resolved:
  "LoadEnv (exampleRt unset) {}
     (Pointer (StructV ''Config''
        [Field ''DB'' ''DB'' True (StructV ''DBConfig'' [Field ''Host'' ''DB_HOST;default:localhost'' True (stringV [])])])) =
   (None, {''DB'', ''DB_HOST''},
    Pointer (StructV ''Config''
        [Field ''DB'' ''DB'' True (StructV ''DBConfig'' [Field ''Host'' ''DB_HOST;default:localhost'' True (stringV ''localhost'')])])) \<and>
   fst (getTags {} ''DB'') = Inr [''name'' \<mapsto> ''DB''] \<and>
   getField (exampleRt unset) [''name'' \<mapsto> ''DB''] = Inl (EnvNotFoundError ''DB'') \<and>
   LoadEnv (exampleRt unset) {} (Pointer (StructV ''Config'' [Field ''Host'' ''HOST;name'' True (stringV [])])) =
   (None, {''HOST''}, Pointer (StructV ''Config'' [Field ''Host'' ''HOST;name'' True (stringV [])])) \<and>
   directive (Field ''Host'' ''HOST;name'' True (stringV [])) = [''HOST''] \<and>
   fst (getTags {} ''HOST;name'') = Inr [''name'' \<mapsto> []]"
  by (simp add: LoadEnv_def tag_eval load_eval example_eval directive_def insert_commute)

subsection \<open>Nested structs\<close>





subsection \<open>Slices and arrays\<close>

lemma setElems_facts:
  assumes "isList field"
  shows "elems (setElems field ys) = ys" and "isList (setElems field ys)"
    and "setIndex (setElems field ys) i v = setElems field (ys[i := v])"
    and "setElems (setElems field ys) zs = setElems field zs"
    and "setElems field (elems field) = field"
    and "Kind (setElems field ys) = Kind field"
  using assms by (cases field; simp add: isList_def)+

lemma setField_convert_fails:
  "convert rt (typeOf v) str = Inl cause \<Longrightarrow>
   setField rt True v str tags = Inl (Returned (EnvParseError (lookup tags ''name'') cause str))"
  by (auto simp add: convert_def setField_def split: option.splits)

lemma setField_convert_ok:
  "convert rt (typeOf v) str = Inr v' \<Longrightarrow> assignable v' v \<Longrightarrow> setField rt True v str tags = Inr v'"
  by (auto simp add: convert_def setField_def split: option.splits)

lemma prefix_update:
  assumes "i < length vs" "i < length xs"
  shows "(take i vs @ drop i xs)[i := vs ! i] = take (Suc i) vs @ drop (Suc i) xs"
proof -
  have d: "drop i xs = xs ! i # drop (Suc i) xs"
    using assms by (simp add: Cons_nth_drop_Suc)
  have "(take i vs @ drop i xs)[i := vs ! i] = take i vs @ (drop i xs)[0 := vs ! i]"
    using assms by (simp add: list_update_append)
  then show ?thesis
    using assms by (simp add: d take_Suc_conv_app_nth)
qed

lemma setElements_step_ok:
  assumes "isList field" "i < length strs" "i < length (elems field)"
    and "setField rt True (elems field ! i) (strs ! i) tags = Inr v"
  shows "setElements rt tags field strs i = setElements rt tags (setIndex field i v) strs (i + 1)"
  using assms by (subst setElements.simps) (simp add: Index_def)

lemma setElements_step_fail:
  assumes "i < length strs" "i < length (elems field)"
    and "setField rt True (elems field ! i) (strs ! i) tags = Inl e"
  shows "setElements rt tags field strs i = (Some e, field)"
  using assms by (subst setElements.simps) (simp add: Index_def)

lemma setElements_done: "\<not> i < length strs \<Longrightarrow> setElements rt tags field strs i = (None, field)"
  by (subst setElements.simps) simp

lemma setElements_out_of_range:
  assumes "i < length strs" "\<not> i < length (elems field)"
  shows "setElements rt tags field strs i =
    (Some (Panicked (if Kind field = Array then ''reflect: array index out of range''
                     else ''reflect: slice index out of range'')), field)"
  using assms by (subst setElements.simps) (simp add: Index_def)

lemma setElements_from:
  assumes l: "isList field" and xs: "xs = elems field"
    and k: "k \<le> length strs" "length strs \<le> length xs" "k \<le> length vs"
    and ok: "\<And>j. j < k \<Longrightarrow> setField rt True (xs ! j) (strs ! j) tags = Inr (vs ! j)"
    and i: "i \<le> k"
  shows "setElements rt tags (setElems field (take i vs @ drop i xs)) strs i =
         setElements rt tags (setElems field (take k vs @ drop k xs)) strs k"
  using i
proof (induction "k - i" arbitrary: i)
  case 0
  then show ?case by simp
next
  case (Suc d)
  then have ik: "i < k" by simp
  let ?cur = "setElems field (take i vs @ drop i xs)"
  have len: "i < length strs" "i < length xs" "i < length vs"
    using ik k by simp_all
  have el: "elems ?cur = take i vs @ drop i xs"
    by (rule setElems_facts(1) [OF l])
  have at: "elems ?cur ! i = xs ! i"
    using len by (simp add: el nth_append)
  have "setElements rt tags ?cur strs i = setElements rt tags (setIndex ?cur i (vs ! i)) strs (i + 1)"
  proof (rule setElements_step_ok)
    show "isList ?cur" by (rule setElems_facts(2) [OF l])
    show "i < length strs" by (rule len(1))
    show "i < length (elems ?cur)" using len by (simp add: el)
    show "setField rt True (elems ?cur ! i) (strs ! i) tags = Inr (vs ! i)"
      unfolding at by (rule ok [OF ik])
  qed
  also have "setIndex ?cur i (vs ! i) = setElems field (take (Suc i) vs @ drop (Suc i) xs)"
    by (simp add: setElems_facts(3) [OF l] prefix_update [OF len(3,2)])
  also have "setElements rt tags (setElems field (take (Suc i) vs @ drop (Suc i) xs)) strs (i + 1) =
             setElements rt tags (setElems field (take k vs @ drop k xs)) strs k"
    using Suc.hyps(1) [of "Suc i"] Suc.hyps(2) ik by simp
  finally show ?case .
qed

lemma setElements_all:
  assumes "isList field"
    and "length strs \<le> length (elems field)" "length vs = length strs"
    and "\<And>j. j < length strs \<Longrightarrow> setField rt True (elems field ! j) (strs ! j) tags = Inr (vs ! j)"
  shows "setElements rt tags field strs 0 =
         (None, setElems field (vs @ drop (length strs) (elems field)))"
proof -
  have "setElements rt tags (setElems field (take 0 vs @ drop 0 (elems field))) strs 0 =
        setElements rt tags (setElems field (take (length strs) vs @ drop (length strs) (elems field))) strs (length strs)"
    by (rule setElements_from [OF assms(1) refl _ assms(2)]) (use assms in simp_all)
  then show ?thesis
    using assms(1,3) by (simp add: setElems_facts setElements_done)
qed

lemma setElements_first_failure:
  assumes "isList field"
    and "k < length strs" "length strs \<le> length (elems field)" "length vs = k"
    and "\<And>j. j < k \<Longrightarrow> setField rt True (elems field ! j) (strs ! j) tags = Inr (vs ! j)"
    and "setField rt True (elems field ! k) (strs ! k) tags = Inl e"
  shows "setElements rt tags field strs 0 = (Some e, setElems field (vs @ drop k (elems field)))"
proof -
  let ?xs = "elems field"
  let ?cur = "setElems field (take k vs @ drop k ?xs)"
  have "setElements rt tags (setElems field (take 0 vs @ drop 0 ?xs)) strs 0 = setElements rt tags ?cur strs k"
    by (rule setElements_from [OF assms(1) refl _ assms(3)]) (use assms in simp_all)
  moreover have "setElements rt tags ?cur strs k = (Some e, ?cur)"
  proof (rule setElements_step_fail)
    show "k < length strs" by (rule assms(2))
    show "k < length (elems ?cur)" using assms by (simp add: setElems_facts)
    show "setField rt True (elems ?cur ! k) (strs ! k) tags = Inl e"
      using assms by (simp add: setElems_facts nth_append)
  qed
  ultimately show ?thesis
    using assms(1,4) by (simp add: setElems_facts)
qed

lemma parseArrayString_bracketed:
  "parseArrayString (''['' @ interior @ '']'') = Inr (Split interior CHR '','')"
  by (simp add: parseArrayString_def)

lemma Split_nonempty: "Split s c \<noteq> []"
  by (cases s) (auto split: list.splits)

lemma setIterableField_slice:
  "parseArrayString str = Inr strs \<Longrightarrow> Kind field = Slice \<Longrightarrow>
   setIterableField rt True field str tags =
     setElements rt tags (MakeSlice rt field (length strs)) strs 0"
  by (simp add: setIterableField_def)

lemma setIterableField_empty_array:
  "parseArrayString str = Inr strs \<Longrightarrow>
   setIterableField rt True (ArrayV et []) str tags = setElements rt tags (ArrayV et []) strs 0"
  by (simp add: setIterableField_def)

lemma RegisterEnvType_simps [simp]:
  "envTypes (RegisterEnvType T c rt) = (envTypes rt)(T \<mapsto> c)"
  "Getenv (RegisterEnvType T c rt) = Getenv rt"
  "Sscan (RegisterEnvType T c rt) = Sscan rt"
  "Zero (RegisterEnvType T c rt) = Zero rt"
  by (simp_all add: RegisterEnvType_def)

lemma getField_RegisterEnvType [simp]: "getField (RegisterEnvType T c rt) tags = getField rt tags"
  by (simp add: getField_def)

text \<open>
  Claim C7, for a settable field of kind slice and an input \<^verbatim>\<open>[\<close>interior\<^verbatim>\<open>]\<close>. The
  field becomes a new slice of its type with one zero element per element string
  of the interior, and the element strings are then converted in order. When all
  of them convert (to values that can be assigned to an element), the slice holds
  the converted values. When the first \<open>k\<close> convert and element \<open>k\<close> does not,
  the call returns the \<^verbatim>\<open>EnvParseError\<close> that carries that element string, the
  directive name and the cause the conversion gave; the slice then still has the
  full parsed length: the converted prefix, and zero values from the failing
  element on. (The zero value of a type has that type.)
\<close>

theorem growable_container:
  assumes "Kind field = Slice" and "elemType field = et"
    and "str = ''['' @ interior @ '']''" and "strs = Split interior CHR '',''"
    and "typeOf (Zero rt et) = et"
    and "length vs = k" and "k \<le> length strs"
    and "\<forall>j<k. convert rt et (strs ! j) = Inr (vs ! j) \<and> assignable (vs ! j) (Zero rt et)"
  shows "(k = length strs \<longrightarrow>
            setIterableField rt True field str tags = (None, setElems field vs)) \<and>
         (k < length strs \<and> convert rt et (strs ! k) = Inl cause \<longrightarrow>
            setIterableField rt True field str tags =
              (Some (Returned (EnvParseError (lookup tags ''name'') cause (strs ! k))),
               setElems field (vs @ replicate (length strs - k) (Zero rt et))) \<and>
            Error (EnvParseError (lookup tags ''name'') cause (strs ! k)) =
              ''error parsing '' @ apos @ strs ! k @ apos @ '' as environment variable '' @
              lookup tags ''name'' @ '': '' @ Error cause)"
proof -
  let ?m = "length strs"
  let ?fresh = "MakeSlice rt field ?m"
  have fl: "isList field"
    using assms(1) by (simp add: isList_def)
  have run: "setIterableField rt True field str tags = setElements rt tags ?fresh strs 0"
    by (rule setIterableField_slice [OF _ assms(1)]) (simp only: assms(3,4) parseArrayString_bracketed)
  have l: "isList ?fresh" and el: "elems ?fresh = replicate ?m (Zero rt et)"
    by (simp_all add: MakeSlice_def setElems_facts [OF fl] assms(2))
  have again: "setElems ?fresh ys = setElems field ys" for ys
    by (simp add: MakeSlice_def setElems_facts [OF fl])
  have ok: "setField rt True (elems ?fresh ! j) (strs ! j) tags = Inr (vs ! j)" if "j < k" for j
  proof (rule setField_convert_ok)
    from that assms(7) have e: "elems ?fresh ! j = Zero rt et" by (simp add: el)
    from that assms(5,8) show "convert rt (typeOf (elems ?fresh ! j)) (strs ! j) = Inr (vs ! j)"
      by (simp add: e)
    from that assms(8) show "assignable (vs ! j) (elems ?fresh ! j)"
      by (simp add: e)
  qed
  have all: "setIterableField rt True field str tags = (None, setElems field vs)" if "k = ?m"
  proof -
    have "setElements rt tags ?fresh strs 0 = (None, setElems ?fresh (vs @ drop ?m (elems ?fresh)))"
      by (rule setElements_all [OF l]) (use that assms(6) ok in \<open>simp_all add: el\<close>)
    then show ?thesis
      unfolding run by (simp add: el again)
  qed
  have first: "setIterableField rt True field str tags =
      (Some (Returned (EnvParseError (lookup tags ''name'') cause (strs ! k))),
       setElems field (vs @ replicate (?m - k) (Zero rt et)))"
    if "k < ?m" and "convert rt et (strs ! k) = Inl cause"
  proof -
    have "setField rt True (elems ?fresh ! k) (strs ! k) tags =
            Inl (Returned (EnvParseError (lookup tags ''name'') cause (strs ! k)))"
      by (rule setField_convert_fails) (use that assms(5) in \<open>simp add: el\<close>)
    then have "setElements rt tags ?fresh strs 0 =
        (Some (Returned (EnvParseError (lookup tags ''name'') cause (strs ! k))),
         setElems ?fresh (vs @ drop k (elems ?fresh)))"
      by (intro setElements_first_failure [OF l]) (use that assms(6) ok in \<open>simp_all add: el\<close>)
    then show ?thesis
      unfolding run by (simp add: el again)
  qed
  from all first show ?thesis by simp
qed

theorem growable_container_witness:
  "setIterableField (exampleRt unset) True (SliceV tInt [intV 9]) ''[1,2,3]'' [''name'' \<mapsto> ''INT_SLICE''] =
     (None, SliceV tInt [intV 1, intV 2, intV 3]) \<and>
   setIterableField (exampleRt unset) True (SliceV tInt [intV 9]) ''[1,x,3]'' [''name'' \<mapsto> ''INT_SLICE''] =
     (Some (Returned (EnvParseError ''INT_SLICE'' (errorString ''expected integer'') ''x'')),
      SliceV tInt [intV 1, intV 0, intV 0]) \<and>
   setIterableField (exampleRt unset) True (NamedSliceV ''Ports'' tInt []) ''[80,443]'' [''name'' \<mapsto> ''PORTS''] =
     (None, NamedSliceV ''Ports'' tInt [intV 80, intV 443])"
proof -
  have s1: "[''1'', ''2'', ''3''] = Split ''1,2,3'' CHR '',''" and s2: "[''1'', ''x'', ''3''] = Split ''1,x,3'' CHR '',''"
    and s3: "[''80'', ''443''] = Split ''80,443'' CHR '',''"
    by simp_all
  have z: "typeOf (Zero (exampleRt unset) tInt) = tInt"
    by simp
  have k: "Kind (SliceV tInt [intV 9]) = Slice" and e: "elemType (SliceV tInt [intV 9]) = tInt"
    and k3: "Kind (NamedSliceV ''Ports'' tInt ([] :: basic goval list)) = Slice"
    and e3: "elemType (NamedSliceV ''Ports'' tInt ([] :: basic goval list)) = tInt"
    by simp_all
  have conv: "convert (exampleRt unset) tInt ''1'' = Inr (intV 1)" "convert (exampleRt unset) tInt ''2'' = Inr (intV 2)"
    "convert (exampleRt unset) tInt ''3'' = Inr (intV 3)" "convert (exampleRt unset) tInt ''80'' = Inr (intV 80)"
    "convert (exampleRt unset) tInt ''443'' = Inr (intV 443)"
    "convert (exampleRt unset) tInt ''x'' = Inl (errorString ''expected integer'')"
    by (simp_all add: convert_def example_eval)
  have a: "assignable (intV n) (Zero (exampleRt unset) tInt)" for n
    by (simp add: assignable_def)
  have c1: "\<forall>j<3. convert (exampleRt unset) tInt ([''1'', ''2'', ''3''] ! j) = Inr ([intV 1, intV 2, intV 3] ! j)
                \<and> assignable ([intV 1, intV 2, intV 3] ! j) (Zero (exampleRt unset) tInt)"
    by (simp add: eval_nat_numeral All_less_Suc conv a del: exampleRt_simps)
  have c2: "\<forall>j<1. convert (exampleRt unset) tInt ([''1'', ''x'', ''3''] ! j) = Inr ([intV 1] ! j)
                \<and> assignable ([intV 1] ! j) (Zero (exampleRt unset) tInt)"
    by (simp add: conv a del: exampleRt_simps)
  have c3: "\<forall>j<2. convert (exampleRt unset) tInt ([''80'', ''443''] ! j) = Inr ([intV 80, intV 443] ! j)
                \<and> assignable ([intV 80, intV 443] ! j) (Zero (exampleRt unset) tInt)"
    by (simp add: eval_nat_numeral All_less_Suc conv a del: exampleRt_simps)
  have f: "convert (exampleRt unset) tInt ([''1'', ''x'', ''3''] ! 1) = Inl (errorString ''expected integer'')"
    by (simp add: conv)
  have w1: "setIterableField (exampleRt unset) True (SliceV tInt [intV 9]) ''[1,2,3]'' [''name'' \<mapsto> ''INT_SLICE''] =
     (None, SliceV tInt [intV 1, intV 2, intV 3])"
    using growable_container [where str = "''[1,2,3]''" and tags = "[''name'' \<mapsto> ''INT_SLICE'']", OF k e _ s1 z _ _ c1]
    by simp
  have w2: "setIterableField (exampleRt unset) True (SliceV tInt [intV 9]) ''[1,x,3]'' [''name'' \<mapsto> ''INT_SLICE''] =
     (Some (Returned (EnvParseError ''INT_SLICE'' (errorString ''expected integer'') ''x'')),
      SliceV tInt [intV 1, intV 0, intV 0])"
    using growable_container [where str = "''[1,x,3]''" and cause = "errorString ''expected integer''"
        and tags = "[''name'' \<mapsto> ''INT_SLICE'']", OF k e _ s2 z _ _ c2] f
    by (simp add: lookup_def eval_nat_numeral)
  have w3: "setIterableField (exampleRt unset) True (NamedSliceV ''Ports'' tInt []) ''[80,443]'' [''name'' \<mapsto> ''PORTS''] =
     (None, NamedSliceV ''Ports'' tInt [intV 80, intV 443])"
    using growable_container [where str = "''[80,443]''" and tags = "[''name'' \<mapsto> ''PORTS'']", OF k3 e3 _ s3 z _ _ c3]
    by simp
  from w1 w2 w3 show ?thesis by simp
qed

text \<open>
  A slice field that is not settable (an unexported field), with the value
  \<^verbatim>\<open>[1,2]\<close>: the call returns the error \<^verbatim>\<open>field cannot be set\<close> for the whole
  string before it parses the brackets; the slice keeps its one element, so it is
  not reallocated to the two parsed elements, and no element is converted. And a
  settable slice of \<^verbatim>\<open>Mode\<close> with a converter that gives a \<^verbatim>\<open>string\<close> for
  \<^verbatim>\<open>fast\<close> and fails on \<^verbatim>\<open>zzz\<close>: on \<^verbatim>\<open>[fast,zzz]\<close> the first element whose
  conversion fails is the second, but storing the first one panics; no
  \<^verbatim>\<open>EnvParseError\<close> is returned.
\<close>

theorem unsettable_slice_is_not_reallocated:
  "LoadEnv (exampleRt (unset(''INTS'' := ''[1,2]''))) {}
     (Pointer (StructV ''Config'' [Field ''ints'' ''INTS'' False (SliceV tInt [intV 9])])) =
   (Some (Returned (EnvParseError ''INTS'' (errorString ''field cannot be set'') ''[1,2]'')), {''INTS''},
    Pointer (StructV ''Config'' [Field ''ints'' ''INTS'' False (SliceV tInt [intV 9])])) \<and>
   setIterableField (exampleRt unset) False (SliceV tInt [intV 9]) ''[1,2]'' [''name'' \<mapsto> ''INTS''] =
   (Some (Returned (EnvParseError ''INTS'' (errorString ''field cannot be set'') ''[1,2]'')), SliceV tInt [intV 9]) \<and>
   Error (EnvParseError ''INTS'' (errorString ''field cannot be set'') ''[1,2]'') =
     ''error parsing '[1,2]' as environment variable INTS: field cannot be set'' \<and>
   stringModeConverter ''fast'' = Inr (stringV ''fast'') \<and>
   stringModeConverter ''zzz'' = Inl (errorString ''unknown mode'') \<and>
   setIterableField (RegisterEnvType tMode stringModeConverter (exampleRt unset)) True (SliceV tMode [])
     ''[fast,zzz]'' [''name'' \<mapsto> ''MODES''] =
   (Some (notAssignable tString tMode), SliceV tMode [Scalar tMode Opaque, Scalar tMode Opaque]) \<and>
   notAssignable tString tMode = Panicked ''reflect.Set: value of type string is not assignable to type Mode''"
  by (simp add: LoadEnv_def tag_eval load_eval example_eval stringModeConverter_def notAssignable_def tMode_def)

text \<open>
  Arrays of capacity at least one: the element strings that fit are converted in
  order and the remaining slots keep their values; more element strings than
  slots give the error \<^verbatim>\<open>array size overflow, expected n, got m\<close> and nothing is
  written.
\<close>

lemma fixed_size_container:
  assumes "str = ''['' @ interior @ '']''" and "strs = Split interior CHR '',''"
    and "0 < length xs"
  shows "(length strs \<le> length xs \<and> length vs = length strs \<and>
          (\<forall>j<length strs. convert rt (typeOf (xs ! j)) (strs ! j) = Inr (vs ! j) \<and> assignable (vs ! j) (xs ! j)) \<longrightarrow>
            setIterableField rt True (ArrayV et xs) str tags = (None, ArrayV et (vs @ drop (length strs) xs))) \<and>
         (length xs < length strs \<longrightarrow>
            setIterableField rt True (ArrayV et xs) str tags =
              (Some (Returned (EnvParseError (lookup tags ''name'')
                 (overflowError (length xs) (length strs)) str)), ArrayV et xs) \<and>
            Error (overflowError (length xs) (length strs)) =
              ''array size overflow, expected '' @ showNat (length xs) @ '', got '' @ showNat (length strs))"
proof -
  have p: "parseArrayString str = Inr strs"
    unfolding assms(1,2) by (rule parseArrayString_bracketed)
  have over: "setIterableField rt True (ArrayV et xs) str tags =
      (Some (Returned (EnvParseError (lookup tags ''name'') (overflowError (length xs) (length strs)) str)),
       ArrayV et xs)" if "length xs < length strs"
    using that assms(3) by (simp add: setIterableField_def p)
  have fits: "setIterableField rt True (ArrayV et xs) str tags = (None, ArrayV et (vs @ drop (length strs) xs))"
    if "length strs \<le> length xs" "length vs = length strs"
      and c: "\<forall>j<length strs. convert rt (typeOf (xs ! j)) (strs ! j) = Inr (vs ! j) \<and> assignable (vs ! j) (xs ! j)"
  proof -
    have "setElements rt tags (ArrayV et xs) strs 0 =
        (None, setElems (ArrayV et xs) (vs @ drop (length strs) (elems (ArrayV et xs))))"
    proof (rule setElements_all)
      show "isList (ArrayV et xs)" by (simp add: isList_def)
      show "length strs \<le> length (elems (ArrayV et xs))" using that(1) by simp
      show "length vs = length strs" by (rule that(2))
      show "setField rt True (elems (ArrayV et xs) ! j) (strs ! j) tags = Inr (vs ! j)"
        if "j < length strs" for j
        using that c by (intro setField_convert_ok) simp_all
    qed
    then show ?thesis
      using that(1) assms(3) by (simp add: setIterableField_def p)
  qed
  from over fits show ?thesis by (simp add: overflowError_def)
qed

lemma fixed_size_examples:
  "setIterableField (exampleRt unset) True (ArrayV tInt [intV 0, intV 0, intV 0, intV 0, intV 0]) ''[1,2,3,4,5]''
     [''name'' \<mapsto> ''INT_ARRAY''] =
     (None, ArrayV tInt [intV 1, intV 2, intV 3, intV 4, intV 5]) \<and>
   setIterableField (exampleRt unset) True (ArrayV tInt [intV 0, intV 0, intV 0, intV 0]) ''[1,2,3,4,5]''
     [''name'' \<mapsto> ''INT_ARRAY''] =
     (Some (Returned (EnvParseError ''INT_ARRAY'' (overflowError 4 5) ''[1,2,3,4,5]'')),
      ArrayV tInt [intV 0, intV 0, intV 0, intV 0]) \<and>
   Error (overflowError 4 5) = ''array size overflow, expected 4, got 5''"
  by (simp add: setIterableField_def parseArrayString_def setElements.simps Index_def setField_def
        example_eval lookup_def overflowError_def showNat_digit digit_def)

text \<open>
  Claim C3, for capacity zero. The overflow test of the source is guarded by
  \<^verbatim>\<open>maxLength > 0\<close>, where \<^verbatim>\<open>maxLength\<close> is 0 for a slice; an array of capacity 0
  passes the same guard, so the overflow is not reported. A bracketed input always
  has at least one element string, and the loop indexes element 0 of an array
  without elements: the call panics. So for every bracketed input a settable
  \<^verbatim>\<open>[0]T\<close> field makes the load panic instead of failing with the overflow
  error.
\<close>

theorem zero_capacity_array_panics:
  "(\<forall>rt et interior tags.
      setIterableField rt True (ArrayV et []) (''['' @ interior @ '']'') tags =
        (Some (Panicked ''reflect: array index out of range''), ArrayV et [])) \<and>
   loadFields (exampleRt (unset(''INT_ARRAY'' := ''[1]''))) {}
     [Field ''IntArray'' ''INT_ARRAY'' True (ArrayV tInt [])] =
   (Some (Panicked ''reflect: array index out of range''), {''INT_ARRAY''},
    [Field ''IntArray'' ''INT_ARRAY'' True (ArrayV tInt [])])"
proof -
  have "setIterableField rt True (ArrayV et []) (''['' @ interior @ '']'') tags =
      (Some (Panicked ''reflect: array index out of range''), ArrayV et [])"
    for rt :: "'a runtime" and et interior tags
  proof -
    have "0 < length (Split interior CHR '','')"
      using Split_nonempty [of interior "CHR '',''"] by simp
    then have "setElements rt tags (ArrayV et []) (Split interior CHR '','') 0 =
        (Some (Panicked ''reflect: array index out of range''), ArrayV et [])"
      by (simp add: setElements_out_of_range)
    then show ?thesis
      by (simp only: setIterableField_empty_array [OF parseArrayString_bracketed])
  qed
  moreover have "loadFields (exampleRt (unset(''INT_ARRAY'' := ''[1]''))) {}
     [Field ''IntArray'' ''INT_ARRAY'' True (ArrayV tInt [])] =
   (Some (Panicked ''reflect: array index out of range''), {''INT_ARRAY''},
    [Field ''IntArray'' ''INT_ARRAY'' True (ArrayV tInt [])])"
    by (simp add: tag_eval load_eval)
  ultimately show ?thesis by blast
qed

subsection \<open>Registered converters\<close>




subsection \<open>The registry of directive names\<close>

lemma getTags_registry:
  "snd (getTags tagNames tag) = tagNames \<union> set (take 1 (FieldsFunc tag SplitTags))"
  by (simp add: getTags_def tagSliceToKeyMap_registry)

lemma getTags_duplicate:
  "FieldsFunc tag SplitTags = n # rest \<Longrightarrow> n \<in> tagNames \<Longrightarrow>
   getTags tagNames tag = (Inl (Returned (duplicateTag n)), tagNames)"
  by (simp add: getTags_def tagSliceToKeyMap_duplicate)

lemma getTags_fresh:
  assumes "getTags tagNames tag = (Inr tags, tagNames1)"
  shows "set (take 1 (FieldsFunc tag SplitTags)) \<inter> tagNames = {}"
proof (cases "FieldsFunc tag SplitTags")
  case Nil
  then show ?thesis by simp
next
  case (Cons n rest)
  with assms getTags_duplicate [OF Cons] have "n \<notin> tagNames" by auto
  with Cons show ?thesis by simp
qed

lemma directives_Nil [simp]: "directives [] = []"
  by (simp add: directives_def)

lemma directives_Cons: "directives (f # fs) = directives [f] @ directives fs"
  by (simp add: directives_def)

lemma directives_single:
  "directives [f] = directive f @ (case val f of StructV nm nested \<Rightarrow> directives nested | v \<Rightarrow> [])"
  by (cases f; cases "val f") (simp_all add: directives_def)

lemma directives_walk: "concat (map directive (walk f)) = directives [f]"
  by (simp add: directives_def)

lemma directive_distinct: "distinct (directive f)"
  by (cases "FieldsFunc (Tag f) SplitTags") (simp_all add: directive_def)

lemma loadField_success_cases:
  assumes "loadField rt tagNames f = (None, tagNames1, f')"
  obtains (plain) tags where "getTags tagNames (Tag f) = (Inr tags, tagNames1)" "Kind (val f) \<noteq> Struct"
  | (struct) tags tagNames0 nm nested nested' where "getTags tagNames (Tag f) = (Inr tags, tagNames0)"
      "val f = StructV nm nested" "exported f" "loadFields rt tagNames0 nested = (None, tagNames1, nested')"
  using assms
  by (cases "val f")
     (auto simp add: loadField.simps split: prod.splits sum.splits failure.splits if_splits option.splits list.splits)

lemma success_registry:
  "loadField rt tagNames f = (None, tagNames1, f') \<Longrightarrow>
     tagNames1 = tagNames \<union> set (directives [f]) \<and> distinct (directives [f]) \<and> set (directives [f]) \<inter> tagNames = {}"
  "loadFields rt tagNames fs = (None, tagNames1, fs') \<Longrightarrow>
     tagNames1 = tagNames \<union> set (directives fs) \<and> distinct (directives fs) \<and> set (directives fs) \<inter> tagNames = {}"
proof (induction rt tagNames f and rt tagNames fs arbitrary: tagNames1 f' and tagNames1 fs'
    rule: loadField_loadFields.induct)
  case (1 rt tagNames f)
  from "1.prems" show ?case
  proof (cases rule: loadField_success_cases)
    case (plain tags)
    have r: "tagNames1 = tagNames \<union> set (directive f)"
      using getTags_registry [of tagNames "Tag f"] plain(1) by (simp add: directive_def)
    have fr: "set (directive f) \<inter> tagNames = {}"
      using getTags_fresh [OF plain(1)] by (simp add: directive_def)
    have d: "directives [f] = directive f"
      using plain(2) by (cases "val f") (simp_all add: directives_single)
    show ?thesis
      by (simp add: d r fr directive_distinct)
  next
    case (struct tags tagNames0 nm nested nested')
    have r: "tagNames0 = tagNames \<union> set (directive f)"
      using getTags_registry [of tagNames "Tag f"] struct(1) by (simp add: directive_def)
    have fr: "set (directive f) \<inter> tagNames = {}"
      using getTags_fresh [OF struct(1)] by (simp add: directive_def)
    have d: "directives [f] = directive f @ directives nested"
      by (simp add: directives_single struct(2))
    have ih: "tagNames1 = tagNames0 \<union> set (directives nested) \<and> distinct (directives nested) \<and>
              set (directives nested) \<inter> tagNames0 = {}"
      by (rule "1.IH" [OF struct(1) [symmetric] refl struct(2) _ struct(4)]) (simp add: struct(3))
    show ?thesis
      using ih fr unfolding d r by (auto simp add: directive_distinct)
  qed
next
  case (2 rt tagNames)
  then show ?case by simp
next
  case (3 rt tagNames f fs)
  from "3.prems" obtain t1 f1 fs1 where
    f: "loadField rt tagNames f = (None, t1, f1)" and fs: "loadFields rt t1 fs = (None, tagNames1, fs1)"
    by (auto split: prod.splits option.splits)
  have a: "t1 = tagNames \<union> set (directives [f]) \<and> distinct (directives [f]) \<and> set (directives [f]) \<inter> tagNames = {}"
    by (rule "3.IH"(1) [OF f])
  have b: "tagNames1 = t1 \<union> set (directives fs) \<and> distinct (directives fs) \<and> set (directives fs) \<inter> t1 = {}"
    by (rule "3.IH"(2) [OF f [symmetric] refl refl fs])
  show ?case
    using a b unfolding directives_Cons [of f fs] by auto
qed

lemma loadField_registry_cases:
  obtains (flat) "fst (snd (loadField rt tagNames f)) = snd (getTags tagNames (Tag f))"
  | (nested) tags tagNames0 nm nested where "getTags tagNames (Tag f) = (Inr tags, tagNames0)"
      "val f = StructV nm nested" "exported f"
      "fst (snd (loadField rt tagNames f)) = fst (snd (loadFields rt tagNames0 nested))"
proof (cases "getTags tagNames (Tag f)")
  case (Pair r tagNames0)
  show ?thesis
  proof (cases r)
    case (Inl e)
    with Pair have "fst (snd (loadField rt tagNames f)) = snd (getTags tagNames (Tag f))"
      by (cases e) (simp_all add: loadField.simps)
    then show ?thesis by (rule flat)
  next
    case (Inr tags)
    show ?thesis
    proof (cases "\<exists>nm nested. val f = StructV nm nested \<and> exported f")
      case True
      then obtain nm nested where v: "val f = StructV nm nested" and e: "exported f" by blast
      have "fst (snd (loadField rt tagNames f)) = fst (snd (loadFields rt tagNames0 nested))"
        using Pair Inr v e
        by (simp add: loadField.simps split: prod.splits option.splits failure.splits list.splits)
      with Pair Inr v e show ?thesis by (intro nested) simp_all
    next
      case False
      with Pair Inr have "fst (snd (loadField rt tagNames f)) = snd (getTags tagNames (Tag f))"
        by (cases "val f") (auto simp add: loadField.simps split: prod.splits)
      then show ?thesis by (rule flat)
    qed
  qed
qed

lemma registry_grows:
  "tagNames \<subseteq> fst (snd (loadField rt tagNames f))"
  "tagNames \<subseteq> fst (snd (loadFields rt tagNames fs))"
proof (induction rt tagNames f and rt tagNames fs rule: loadField_loadFields.induct)
  case (1 rt tagNames f)
  show ?case
  proof (cases rule: loadField_registry_cases [of rt tagNames f])
    case flat
    then show ?thesis by (simp add: getTags_registry)
  next
    case (nested tags tagNames0 nm nested)
    have "tagNames0 \<subseteq> fst (snd (loadFields rt tagNames0 nested))"
      by (rule "1.IH" [OF nested(1) [symmetric] refl nested(2)]) (simp add: nested(3))
    moreover have "tagNames \<subseteq> tagNames0"
      using getTags_registry [of tagNames "Tag f"] nested(1) by auto
    ultimately show ?thesis
      unfolding nested(4) by blast
  qed
next
  case (2 rt tagNames)
  show ?case by simp
next
  case (3 rt tagNames f fs)
  obtain r t1 f1 where f: "loadField rt tagNames f = (r, t1, f1)"
    by (cases "loadField rt tagNames f") auto
  have a: "tagNames \<subseteq> t1" using "3.IH"(1) f by simp
  show ?case
  proof (cases r)
    case None
    have "t1 \<subseteq> fst (snd (loadFields rt t1 fs))"
      by (rule "3.IH"(2) [OF f [symmetric] None refl])
    with a f None show ?thesis
      by (auto split: prod.splits)
  next
    case (Some e)
    with a f show ?thesis by simp
  qed
qed

lemma LoadEnv_registry_grows: "tagNames \<subseteq> fst (snd (LoadEnv rt tagNames config))"
proof (cases "\<exists>nm fs. config = Pointer (StructV nm fs)")
  case True
  then obtain nm fs where c: "config = Pointer (StructV nm fs)" by blast
  have "fst (snd (LoadEnv rt tagNames config)) = fst (snd (loadFields rt tagNames fs))"
    unfolding c nested_call_is_LoadEnv by (simp split: prod.splits)
  then show ?thesis
    using registry_grows(2) [of tagNames rt fs] by simp
next
  case False
  then have "ifaceKind config \<noteq> Ptr \<or> elemKind config \<noteq> Struct"
    unfolding not_pointer_to_struct .
  then have "LoadEnv rt tagNames config =
      (Some (Returned (errorString ''config must be a pointer to a struct'')), tagNames, config)"
    unfolding LoadEnv_def by (rule if_P)
  then show ?thesis by simp
qed

lemma registryAfter_grows: "tagNames \<subseteq> registryAfter calls tagNames"
proof (induction calls arbitrary: tagNames)
  case Nil
  show ?case by simp
next
  case (Cons call calls)
  obtain rt config where c: "call = (rt, config)" by (cases call)
  have "tagNames \<subseteq> fst (snd (LoadEnv rt tagNames config))"
    by (rule LoadEnv_registry_grows)
  also have "\<dots> \<subseteq> registryAfter calls (fst (snd (LoadEnv rt tagNames config)))"
    by (rule Cons.IH)
  finally show ?case by (simp add: c)
qed

lemma parses_registry:
  "parses rt tagNames fs earlier ctx tagNames' g \<Longrightarrow>
   tagNames' = tagNames \<union> set (concat (map directive earlier))"
proof (induction rule: parses.induct)
  case (first rt tagNames f fs)
  show ?case by simp
next
  case (inner tagNames f tags tagNames1 nm nested rt earlier ctx tagNames' g fs)
  have "tagNames1 = tagNames \<union> set (directive f)"
    using getTags_registry [of tagNames "Tag f"] inner.hyps(1) by (simp add: directive_def)
  with inner.IH show ?case by auto
next
  case (later rt tagNames f tagNames1 f' fs earlier ctx tagNames' g)
  have "tagNames1 = tagNames \<union> set (directives [f])"
    using success_registry(1) [OF later.hyps(1)] by simp
  with later.IH show ?case
    by (auto simp add: directives_walk)
qed

lemma parse_fails_load_fails:
  assumes "parses rt tagNames fs earlier ctx tagNames' g"
    and "getTags tagNames' (Tag g) = (Inl (Returned err), tagNames'')"
  shows "\<exists>fs'. loadFields rt tagNames fs =
           (Some (Returned (foldr nestedError ctx (tagsError (Name g) err))), tagNames'', fs')"
  using assms
proof (induction rule: parses.induct)
  case (first rt tagNames f fs)
  then have "loadField rt tagNames f = (Some (Returned (tagsError (Name f) err)), tagNames'', f)"
    by (simp add: loadField.simps)
  then show ?case by simp
next
  case (inner tagNames f tags tagNames1 nm nested rt earlier ctx tagNames' g fs)
  from inner.IH [OF inner.prems] obtain nested' where
    n: "loadFields rt tagNames1 nested =
          (Some (Returned (foldr nestedError ctx (tagsError (Name g) err))), tagNames'', nested')"
    by blast
  then have "nested \<noteq> []" by auto
  then obtain g0 gs where ne: "nested = g0 # gs" by (cases nested) auto
  have "loadField rt tagNames f =
          (Some (Returned (nestedError (Name (hd nested)) (foldr nestedError ctx (tagsError (Name g) err)))),
           tagNames'', Field (Name f) (Tag f) (exported f) (StructV nm nested'))"
    unfolding loadField_struct [OF inner.hyps(1,2,3)] n by (simp add: ne)
  then show ?case by simp
next
  case (later rt tagNames f tagNames1 f' fs earlier ctx tagNames' g)
  from later.IH [OF later.prems] obtain fs' where
    "loadFields rt tagNames1 fs =
       (Some (Returned (foldr nestedError ctx (tagsError (Name g) err))), tagNames'', fs')"
    by blast
  with later.hyps(1) show ?case by simp
qed

lemma Error_nested:
  "Error (foldr nestedError ctx e) = concat (map nestedPrefix ctx) @ Error e"
  by (induction ctx) (simp_all add: nestedError_def nestedPrefix_def)

lemma directive_first_token: "directive g = [n] \<Longrightarrow> \<exists>rest. FieldsFunc (Tag g) SplitTags = n # rest"
  by (cases "FieldsFunc (Tag g) SplitTags") (simp_all add: directive_def)

lemma duplicate_when_parsed:
  assumes "parses rt tagNames fs earlier ctx tagNames' g" and "directive g = [n]" and "n \<in> tagNames'"
  shows "\<exists>fs'. LoadEnv rt tagNames (Pointer (StructV nm fs)) =
           (Some (Returned (foldr nestedError ctx (tagsError (Name g) (duplicateTag n)))), tagNames',
            Pointer (StructV nm fs'))"
proof -
  from directive_first_token [OF assms(2)] obtain rest where "FieldsFunc (Tag g) SplitTags = n # rest" ..
  then have "getTags tagNames' (Tag g) = (Inl (Returned (duplicateTag n)), tagNames')"
    using assms(3) by (rule getTags_duplicate)
  from parse_fails_load_fails [OF assms(1) this] show ?thesis
    by (auto simp add: nested_call_is_LoadEnv)
qed

lemma duplicate_message:
  "Error (foldr nestedError ctx (tagsError fieldName (duplicateTag n))) =
     concat (map nestedPrefix ctx) @ ''error getting tags for field: '' @ apos @ fieldName @ apos @
       '': duplicate tag: '' @ n"
  by (simp add: Error_nested tagsError_def duplicateTag_def)

lemmas step_eval = tag_eval loadField.simps loadValue_def populate_def getField_def lookup_def setField_def

text \<open>
  Claim C4, as the source has it. A load whose fields (nested ones included) carry
  a directive name twice never succeeds. When the load comes to parse the tag of
  a field \<open>second\<close> after the tag of a field \<open>first\<close> with the same directive name
  \<open>n\<close>, it fails with \<^verbatim>\<open>duplicate tag: n\<close> wrapped as
  \<^verbatim>\<open>error getting tags for field: '<declared name of second>': duplicate tag: n\<close>,
  and wrapped once more (\<^verbatim>\<open>error loading nested struct '...': \<close>) for each nested
  struct that \<open>second\<close> is inside of; the registry is as it was when the tag of
  \<open>second\<close> was read.
\<close>

theorem duplicate_directive_in_one_load:
  "(\<not> distinct (directives fs) \<longrightarrow> fst (LoadEnv rt tagNames (Pointer (StructV nm fs))) \<noteq> None) \<and>
   (parses rt tagNames fs earlier ctx tagNames' second \<and> first \<in> set earlier \<and>
    directive first = [n] \<and> directive second = [n] \<longrightarrow>
      (\<exists>fs'. LoadEnv rt tagNames (Pointer (StructV nm fs)) =
         (Some (Returned (foldr nestedError ctx (tagsError (Name second) (duplicateTag n)))), tagNames',
          Pointer (StructV nm fs'))) \<and>
      Error (foldr nestedError ctx (tagsError (Name second) (duplicateTag n))) =
        concat (map nestedPrefix ctx) @ ''error getting tags for field: '' @ apos @ Name second @ apos @
          '': duplicate tag: '' @ n)"
proof -
  have never: "fst (LoadEnv rt tagNames (Pointer (StructV nm fs))) \<noteq> None" if "\<not> distinct (directives fs)"
  proof
    assume "fst (LoadEnv rt tagNames (Pointer (StructV nm fs))) = None"
    then obtain tagNames1 fs' where "loadFields rt tagNames fs = (None, tagNames1, fs')"
      by (auto simp add: nested_call_is_LoadEnv split: prod.splits)
    from success_registry(2) [OF this] that show False by simp
  qed
  have second: "\<exists>fs'. LoadEnv rt tagNames (Pointer (StructV nm fs)) =
         (Some (Returned (foldr nestedError ctx (tagsError (Name second) (duplicateTag n)))), tagNames',
          Pointer (StructV nm fs'))"
    if p: "parses rt tagNames fs earlier ctx tagNames' second" and f: "first \<in> set earlier"
      and d: "directive first = [n]" "directive second = [n]"
  proof -
    have "n \<in> set (directive first)"
      using d(1) by simp
    with f have "n \<in> set (concat (map directive earlier))"
      by auto
    then have "n \<in> tagNames'"
      using parses_registry [OF p] by simp
    with p d(2) show ?thesis by (rule duplicate_when_parsed)
  qed
  from never second show ?thesis
    by (simp add: duplicate_message)
qed

theorem duplicate_directive_in_one_load_witness:
  "fst (LoadEnv (exampleRt (unset(''HOST'' := ''localhost''))) {}
     (Pointer (StructV ''Config''
        [Field ''Host'' ''HOST'' True (stringV []), Field ''Host2'' ''HOST'' True (stringV []),
         Field ''Host3'' ''HOST'' True (stringV [])]))) =
     Some (Returned (tagsError ''Host2'' (duplicateTag ''HOST''))) \<and>
   Error (tagsError ''Host2'' (duplicateTag ''HOST'')) = ''error getting tags for field: 'Host2': duplicate tag: HOST'' \<and>
   fst (LoadEnv (exampleRt (unset(''HOST'' := ''localhost''))) {}
     (Pointer (StructV ''Config''
        [Field ''Host'' ''HOST'' True (stringV []),
         Field ''DB'' [] True (StructV ''DBConfig'' [Field ''Host'' ''HOST'' True (stringV [])])]))) =
     Some (Returned (nestedError ''Host'' (tagsError ''Host'' (duplicateTag ''HOST'')))) \<and>
   Error (nestedError ''Host'' (tagsError ''Host'' (duplicateTag ''HOST''))) =
     ''error loading nested struct 'Host': error getting tags for field: 'Host': duplicate tag: HOST'' \<and>
   fst (LoadEnv (exampleRt unset) {}
     (Pointer (StructV ''Config''
        [Field ''Host'' ''HOST'' True (stringV []), Field ''Host2'' ''HOST'' True (stringV [])]))) \<noteq> None"
proof -
  let ?rt = "exampleRt (unset(''HOST'' := ''localhost''))"
  let ?h1 = "Field ''Host'' ''HOST'' True (stringV []) :: basic gofield"
  let ?h2 = "Field ''Host2'' ''HOST'' True (stringV []) :: basic gofield"
  let ?h3 = "Field ''Host3'' ''HOST'' True (stringV []) :: basic gofield"
  let ?db = "Field ''DB'' [] True (StructV ''DBConfig'' [?h1]) :: basic gofield"
  have l1: "loadField ?rt {} ?h1 = (None, {''HOST''}, Field ''Host'' ''HOST'' True (stringV ''localhost''))"
    by (simp add: step_eval example_eval)
  have w: "walk ?h1 = [?h1]"
    by (simp add: stringV_def)
  have d: "directive ?h1 = [''HOST'']" "directive ?h2 = [''HOST'']"
    by (simp_all add: directive_def FieldsFunc_def SplitTags_def)
  have p1: "parses ?rt {} [?h1, ?h2, ?h3] (walk ?h1 @ []) [] {''HOST''} ?h2"
    by (rule parses.later [OF l1 parses.first])
  have a: "fst (LoadEnv ?rt {} (Pointer (StructV ''Config'' [?h1, ?h2, ?h3]))) =
             Some (Returned (tagsError ''Host2'' (duplicateTag ''HOST''))) \<and>
           Error (tagsError ''Host2'' (duplicateTag ''HOST'')) = ''error getting tags for field: 'Host2': duplicate tag: HOST''"
  proof -
    have "(\<exists>fs'. LoadEnv ?rt {} (Pointer (StructV ''Config'' [?h1, ?h2, ?h3])) =
             (Some (Returned (tagsError ''Host2'' (duplicateTag ''HOST''))), {''HOST''}, Pointer (StructV ''Config'' fs'))) \<and>
          Error (tagsError ''Host2'' (duplicateTag ''HOST'')) = ''error getting tags for field: 'Host2': duplicate tag: HOST''"
      using duplicate_directive_in_one_load [of "[?h1, ?h2, ?h3]" ?rt "{}" "''Config''" "walk ?h1 @ []" "[]" "{''HOST''}" ?h2 ?h1 "''HOST''"] p1 d
      by simp
    then show ?thesis by force
  qed
  have t: "getTags {''HOST''} (Tag ?db) = (Inr Map.empty, {''HOST''})"
    by (simp add: tag_eval)
  have p2: "parses ?rt {} [?h1, ?db] (walk ?h1 @ ?db # []) (Name (hd [?h1]) # []) {''HOST''} ?h1"
    by (rule parses.later [OF l1 parses.inner [OF t _ _ parses.first]]) simp_all
  have b: "fst (LoadEnv ?rt {} (Pointer (StructV ''Config'' [?h1, ?db]))) =
             Some (Returned (nestedError ''Host'' (tagsError ''Host'' (duplicateTag ''HOST'')))) \<and>
           Error (nestedError ''Host'' (tagsError ''Host'' (duplicateTag ''HOST''))) =
             ''error loading nested struct 'Host': error getting tags for field: 'Host': duplicate tag: HOST''"
  proof -
    have "(\<exists>fs'. LoadEnv ?rt {} (Pointer (StructV ''Config'' [?h1, ?db])) =
             (Some (Returned (nestedError ''Host'' (tagsError ''Host'' (duplicateTag ''HOST'')))), {''HOST''},
              Pointer (StructV ''Config'' fs'))) \<and>
           Error (nestedError ''Host'' (tagsError ''Host'' (duplicateTag ''HOST''))) =
             ''error loading nested struct 'Host': error getting tags for field: 'Host': duplicate tag: HOST''"
      using duplicate_directive_in_one_load [of "[?h1, ?db]" ?rt "{}" "''Config''" "walk ?h1 @ [?db]" "[''Host'']" "{''HOST''}" ?h1 ?h1 "''HOST''"] p2 d
      by (simp add: nestedPrefix_def)
    then show ?thesis by force
  qed
  have nd: "\<not> distinct (directives [?h1, ?h2])"
    by (simp add: directives_def directive_def FieldsFunc_def SplitTags_def stringV_def)
  have c: "fst (LoadEnv (exampleRt unset) {} (Pointer (StructV ''Config'' [?h1, ?h2]))) \<noteq> None"
    using duplicate_directive_in_one_load [of "[?h1, ?h2]" "exampleRt unset" "{}" "''Config''", THEN conjunct1] nd
    by blast
  from a b c show ?thesis by simp
qed

text \<open>
  Two fields with the directive name \<^verbatim>\<open>HOST\<close> and no such variable: the load stops
  at the first field with the \<^verbatim>\<open>EnvNotFoundError\<close>, before the tag of the second
  field is parsed.
\<close>

theorem missing_variable_precedes_duplicate:
  "LoadEnv (exampleRt unset) {}
     (Pointer (StructV ''Config''
        [Field ''Host'' ''HOST'' True (stringV []), Field ''Host2'' ''HOST'' True (stringV [])])) =
   (Some (Returned (EnvNotFoundError ''HOST'')), {''HOST''},
    Pointer (StructV ''Config''
        [Field ''Host'' ''HOST'' True (stringV []), Field ''Host2'' ''HOST'' True (stringV [])])) \<and>
   Error (EnvNotFoundError ''HOST'') = ''environment variable not found: HOST''"
  by (simp add: LoadEnv_def step_eval stringV_def)

text \<open>
  Claim C9. No \<^verbatim>\<open>LoadEnv\<close> call removes a name from the registry. So when a call
  has left the name \<open>n\<close> in the registry, then after any further calls
  (\<open>calls\<close>), a call that comes to parse a tag whose directive name is \<open>n\<close> fails
  with the duplicate-tag error for that field.
\<close>

theorem registry_persists_across_loads:
  "(\<forall>rt1 tagNames1 config1. tagNames1 \<subseteq> fst (snd (LoadEnv rt1 tagNames1 config1))) \<and>
   (n \<in> fst (snd (LoadEnv rt0 tagNames0 config0)) \<and>
    tagNames = registryAfter calls (fst (snd (LoadEnv rt0 tagNames0 config0))) \<and>
    parses rt tagNames fs earlier ctx tagNames' g \<and> directive g = [n] \<longrightarrow>
      n \<in> tagNames \<and>
      (\<exists>fs'. LoadEnv rt tagNames (Pointer (StructV nm fs)) =
         (Some (Returned (foldr nestedError ctx (tagsError (Name g) (duplicateTag n)))), tagNames',
          Pointer (StructV nm fs'))) \<and>
      Error (foldr nestedError ctx (tagsError (Name g) (duplicateTag n))) =
        concat (map nestedPrefix ctx) @ ''error getting tags for field: '' @ apos @ Name g @ apos @
          '': duplicate tag: '' @ n)"
proof -
  have kept: "n \<in> tagNames"
    if "n \<in> fst (snd (LoadEnv rt0 tagNames0 config0))"
      and "tagNames = registryAfter calls (fst (snd (LoadEnv rt0 tagNames0 config0)))"
    using that registryAfter_grows [of "fst (snd (LoadEnv rt0 tagNames0 config0))" calls] by auto
  have fails: "\<exists>fs'. LoadEnv rt tagNames (Pointer (StructV nm fs)) =
         (Some (Returned (foldr nestedError ctx (tagsError (Name g) (duplicateTag n)))), tagNames',
          Pointer (StructV nm fs'))"
    if n: "n \<in> tagNames" and p: "parses rt tagNames fs earlier ctx tagNames' g" and d: "directive g = [n]"
  proof -
    have "n \<in> tagNames'"
      using parses_registry [OF p] n by simp
    with p d show ?thesis by (rule duplicate_when_parsed)
  qed
  have main: "n \<in> tagNames \<and>
      (\<exists>fs'. LoadEnv rt tagNames (Pointer (StructV nm fs)) =
         (Some (Returned (foldr nestedError ctx (tagsError (Name g) (duplicateTag n)))), tagNames',
          Pointer (StructV nm fs')))"
    if "n \<in> fst (snd (LoadEnv rt0 tagNames0 config0)) \<and>
      tagNames = registryAfter calls (fst (snd (LoadEnv rt0 tagNames0 config0))) \<and>
      parses rt tagNames fs earlier ctx tagNames' g \<and> directive g = [n]"
    using that kept fails by blast
  show ?thesis
    apply (intro conjI allI impI)
       apply (rule LoadEnv_registry_grows)
      apply (erule main [THEN conjunct1])
     apply (erule main [THEN conjunct2])
    apply (rule duplicate_message)
    done
qed

theorem registry_persists_across_loads_witness:
  "fst (snd (LoadEnv (exampleRt (unset(''HOST'' := ''localhost''))) {}
     (Pointer (StructV ''Config'' [Field ''Host'' ''HOST'' True (stringV [])])))) = {''HOST''} \<and>
   registryAfter [(exampleRt unset, NilPointer)] {''HOST''} = {''HOST''} \<and>
   fst (LoadEnv (exampleRt (unset(''HOST'' := ''localhost''))) {''HOST''}
     (Pointer (StructV ''Config'' [Field ''Host'' ''HOST'' True (stringV [])]))) =
     Some (Returned (tagsError ''Host'' (duplicateTag ''HOST''))) \<and>
   Error (tagsError ''Host'' (duplicateTag ''HOST'')) = ''error getting tags for field: 'Host': duplicate tag: HOST''"
proof -
  let ?rt = "exampleRt (unset(''HOST'' := ''localhost''))"
  let ?h = "Field ''Host'' ''HOST'' True (stringV []) :: basic gofield"
  let ?c = "Pointer (StructV ''Config'' [?h])"
  have r0: "fst (snd (LoadEnv ?rt {} ?c)) = {''HOST''}"
    by (simp add: LoadEnv_def step_eval example_eval)
  have r1: "registryAfter [(exampleRt unset, NilPointer)] {''HOST''} = {''HOST''}"
    by (simp add: LoadEnv_def)
  have d: "directive ?h = [''HOST'']"
    by (simp add: directive_def FieldsFunc_def SplitTags_def)
  have p: "parses ?rt {''HOST''} [?h] [] [] {''HOST''} ?h"
    by (rule parses.first)
  have "fst (LoadEnv ?rt {''HOST''} ?c) = Some (Returned (tagsError ''Host'' (duplicateTag ''HOST''))) \<and>
        Error (tagsError ''Host'' (duplicateTag ''HOST'')) = ''error getting tags for field: 'Host': duplicate tag: HOST''"
  proof -
    have "(\<exists>fs'. LoadEnv ?rt {''HOST''} ?c =
            (Some (Returned (tagsError ''Host'' (duplicateTag ''HOST''))), {''HOST''}, Pointer (StructV ''Config'' fs'))) \<and>
          Error (tagsError ''Host'' (duplicateTag ''HOST'')) = ''error getting tags for field: 'Host': duplicate tag: HOST''"
      using registry_persists_across_loads [of "''HOST''" ?rt "{}" ?c "{''HOST''}" "[(exampleRt unset, NilPointer)]" ?rt "[?h]" "[]" "[]" "{''HOST''}" ?h "''Config''",
                THEN conjunct2] d p
      by (simp only: r0 r1) simp
    then show ?thesis by force
  qed
  with r0 r1 show ?thesis by simp
qed

end
